theory Spec2Isabelle
  imports Main
begin

section \<open>Exponential backoff: \<open>withRetry\<close>\<close>

text \<open>
  The source (\<^verbatim>\<open>src/ZorixGlobalApp.jsx\<close>, lines 14-22):
  \<^verbatim>\<open>
  const withRetry = async (fn, retries = 5, delay = 1000) => {
      try {
          return await fn();
      } catch (error) {
          if (retries === 0) throw error;
          await new Promise(resolve => setTimeout(resolve, delay));
          return withRetry(fn, retries - 1, delay * 2);
      }
  };
  \<close>
  The wrapped operation \<open>fn\<close> is effectful, so it is a state transformer on a world
  \<open>'s\<close> that either throws (\<open>Inl\<close>) or returns (\<open>Inr\<close>). What \<open>withRetry\<close> itself
  does to the outside is recorded in a trace: one \<open>Invoked\<close> per call of \<open>fn\<close> and one
  \<open>Waited d\<close> per \<^verbatim>\<open>setTimeout(resolve, d)\<close> that it awaits. The counter
  \<open>retries\<close> is an integer that is only compared with \<open>0\<close> by \<^verbatim>\<open>===\<close>; from a
  negative start the recursion never reaches it, so the function is partial: \<open>None\<close>
  stands for a promise that never settles. Doubling is exact on JavaScript numbers
  below the overflow to \<^verbatim>\<open>Infinity\<close>, so the delay is an integer as well.
\<close>

datatype event = Invoked | Waited int

partial_function (option) withRetry ::
  "('s \<Rightarrow> ('e + 'a) \<times> 's) \<Rightarrow> int \<Rightarrow> int \<Rightarrow> 's \<Rightarrow> event list
     \<Rightarrow> (('e + 'a) \<times> 's \<times> event list) option"
where
  "withRetry fn retries delay s log =
     (case fn s of
        (Inr v, s') \<Rightarrow> Some (Inr v, s', log @ [Invoked])
      | (Inl error, s') \<Rightarrow>
          if retries = 0 then Some (Inl error, s', log @ [Invoked])
          else withRetry fn (retries - 1) (delay * 2) s' (log @ [Invoked, Waited delay]))"

declare withRetry.simps [code]

text \<open>The defaults of the two optional parameters: \<^verbatim>\<open>retries = 5, delay = 1000\<close>.\<close>

definition withRetry_default ::
  "('s \<Rightarrow> ('e + 'a) \<times> 's) \<Rightarrow> 's \<Rightarrow> event list \<Rightarrow> (('e + 'a) \<times> 's \<times> event list) option"
where
  "withRetry_default fn s log = withRetry fn 5 1000 s log"

subsection \<open>Vocabulary for stating what an operation does over successive calls\<close>

text \<open>The world after \<open>n\<close> successive calls of \<open>fn\<close>, and the outcome of call number \<open>k + 1\<close>.\<close>

fun state_after :: "('s \<Rightarrow> 'r \<times> 's) \<Rightarrow> 's \<Rightarrow> nat \<Rightarrow> 's" where
  "state_after fn s 0 = s"
| "state_after fn s (Suc n) = state_after fn (snd (fn s)) n"

definition attempt :: "('s \<Rightarrow> 'r \<times> 's) \<Rightarrow> 's \<Rightarrow> nat \<Rightarrow> 'r" where
  "attempt fn s k = fst (fn (state_after fn s k))"

text \<open>The trace of \<open>n\<close> failed calls, each followed by its wait, the wait doubling.\<close>

fun backoff :: "int \<Rightarrow> nat \<Rightarrow> event list" where
  "backoff d 0 = []"
| "backoff d (Suc n) = Invoked # Waited d # backoff (d * 2) n"

fun waits :: "event list \<Rightarrow> int list" where
  "waits [] = []"
| "waits (Invoked # es) = waits es"
| "waits (Waited d # es) = d # waits es"

definition invocations :: "event list \<Rightarrow> nat" where
  "invocations es = count_list es Invoked"

section \<open>Values, globals and the Firebase SDK\<close>

text \<open>
  The identifier held in the \<open>userId\<close> state is \<^verbatim>\<open>null\<close> at first, may become
  \<^verbatim>\<open>undefined\<close> (from \<^verbatim>\<open>authInstance.currentUser?.uid\<close> when there is no current
  user) or a string. Only a non-empty string is truthy.
\<close>

datatype ident = Null | Undefined | Id string

definition truthy :: "ident \<Rightarrow> bool" where
  "truthy x = (case x of Id u \<Rightarrow> u \<noteq> [] | _ \<Rightarrow> False)"

text \<open>JavaScript's \<^verbatim>\<open>a || b\<close> on identifiers.\<close>

definition or_else :: "ident \<Rightarrow> ident \<Rightarrow> ident" where
  "or_else a b = (if truthy a then a else b)"

record user =
  uid :: ident

text \<open>\<^verbatim>\<open>authInstance.currentUser?.uid\<close>\<close>

definition currentUser_uid :: "user option \<Rightarrow> ident" where
  "currentUser_uid cu = (case cu of None \<Rightarrow> Undefined | Some u \<Rightarrow> uid u)"

text \<open>Opaque handles returned by \<^verbatim>\<open>getFirestore\<close> and \<^verbatim>\<open>getAuth\<close>.\<close>

datatype firestore = Firestore
datatype auth_instance = AuthInstance

type_synonym path = "string list"
type_synonym doc_data = "string \<rightharpoonup> string"

text \<open>The requests that the program sends to the backend through the SDK.\<close>

datatype remote_call =
    SignInWithCustomToken string
  | SignInAnonymously
  | SetDoc path doc_data bool
  | AddDoc path doc_data
  | OnSnapshot path
  | Unsubscribe path

text \<open>
  The globals of lines 9-11. \<open>firebaseConfig\<close> is \<open>None\<close> when \<^verbatim>\<open>__firebase_config\<close>
  is undefined (the parsed object otherwise, kept as its text); \<open>initialAuthToken\<close> is
  \<open>None\<close> for \<^verbatim>\<open>null\<close>.
\<close>

record globals =
  appId :: string
  firebaseConfig :: "string option"
  initialAuthToken :: "string option"

text \<open>
  Everything outside the program is a parameter: an environment \<open>'env\<close> (the Firebase
  backend, the clock, the random source) and the behaviour of the library and platform
  functions on it.
  \<^item> \<open>respond\<close>: how the backend answers a request, rejecting with an error \<open>'e\<close> or
    resolving, and what it becomes;
  \<^item> \<open>initializeApp\<close>: \<^verbatim>\<open>initializeApp\<close>, \<^verbatim>\<open>getFirestore\<close> and \<^verbatim>\<open>getAuth\<close>
    of lines 44-46, which throw or give the two handles;
  \<^item> \<open>onAuthStateChanged\<close>: registering the listener of line 51, which may throw;
  \<^item> \<open>currentUser\<close>: \<^verbatim>\<open>authInstance.currentUser\<close>;
  \<^item> \<open>collection\<close>: \<^verbatim>\<open>collection(db, ...segments)\<close>, which checks the path made of
    the segments and throws on one that is not a collection path (a segment with a
    slash in it changes the number of parts), or gives the reference;
  \<^item> \<open>toISOString\<close>: \<^verbatim>\<open>new Date().toISOString()\<close>;
  \<^item> \<open>randomUUID\<close>: \<^verbatim>\<open>crypto.randomUUID()\<close>.
\<close>

record ('e, 'env) sdk =
  respond :: "remote_call \<Rightarrow> 'env \<Rightarrow> ('e + unit) \<times> 'env"
  initializeApp :: "string \<Rightarrow> 'env \<Rightarrow> 'e + firestore \<times> auth_instance"
  onAuthStateChanged :: "'env \<Rightarrow> 'e option"
  currentUser :: "'env \<Rightarrow> user option"
  collection :: "string list \<Rightarrow> 'e + path"
  toISOString :: "'env \<Rightarrow> string"
  randomUUID :: "'env \<Rightarrow> string"

text \<open>The world: the environment and the requests sent so far, oldest first.\<close>

record 'env world =
  env :: 'env
  calls :: "remote_call list"

definition remote :: "('e, 'env) sdk \<Rightarrow> remote_call \<Rightarrow> 'env world \<Rightarrow> ('e + unit) \<times> 'env world" where
  "remote k c w =
     (case respond k c (env w) of
        (r, env') \<Rightarrow> (r, \<lparr>env = env', calls = calls w @ [c]\<rparr>))"

section \<open>\<open>useFirebaseSetup\<close>\<close>

record firebase_state =
  db :: "firestore option"
  auth :: "auth_instance option"
  userId :: ident
  isAuthReady :: bool

text \<open>The four \<^verbatim>\<open>useState\<close> initial values of lines 27-30.\<close>

definition firebase_initial :: firebase_state where
  "firebase_initial = \<lparr>db = None, auth = None, userId = Null, isAuthReady = False\<rparr>"

text \<open>
  The body of the effect (lines 33-79). The second component tells whether the
  auth-state listener has been registered.
\<close>

definition useFirebaseSetup_effect ::
  "('e, 'env) sdk \<Rightarrow> globals \<Rightarrow> 'env world \<Rightarrow> firebase_state \<Rightarrow> firebase_state \<times> bool"
where
  "useFirebaseSetup_effect k g w st =
     (case firebaseConfig g of
        None \<Rightarrow> (st\<lparr>isAuthReady := True\<rparr>, False)
      | Some cfg \<Rightarrow>
          (case initializeApp k cfg (env w) of
             Inl error \<Rightarrow> (st\<lparr>isAuthReady := True\<rparr>, False)
           | Inr (firestore, authInstance) \<Rightarrow>
               (let st' = st\<lparr>db := Some firestore, auth := Some authInstance\<rparr>
                in case onAuthStateChanged k (env w) of
                     Some error \<Rightarrow> (st'\<lparr>isAuthReady := True\<rparr>, False)
                   | None \<Rightarrow> (st', True))))"

text \<open>The sign-in request chosen at lines 58-62: the token when it is truthy.\<close>

definition signIn_call :: "globals \<Rightarrow> remote_call" where
  "signIn_call g =
     (case initialAuthToken g of
        Some t \<Rightarrow> if t \<noteq> [] then SignInWithCustomToken t else SignInAnonymously
      | None \<Rightarrow> SignInAnonymously)"

text \<open>
  Line 52, the first statement of the listener:
  \<^verbatim>\<open>let currentUserId = authInstance.currentUser?.uid || crypto.randomUUID();\<close>
\<close>

definition currentUserId_init :: "('e, 'env) sdk \<Rightarrow> 'env world \<Rightarrow> ident" where
  "currentUserId_init k w =
     or_else (currentUser_uid (currentUser k (env w))) (Id (randomUUID k (env w)))"

text \<open>
  The listener of lines 51-72, called with \<open>user\<close> (\<open>None\<close> for \<^verbatim>\<open>null\<close>). \<open>None\<close> as
  a result means that the listener never gets to \<^verbatim>\<open>setIsAuthReady(true)\<close>.
\<close>

definition authStateCallback ::
  "('e, 'env) sdk \<Rightarrow> globals \<Rightarrow> user option \<Rightarrow> 'env world \<Rightarrow> event list \<Rightarrow> firebase_state
     \<Rightarrow> (firebase_state \<times> 'env world \<times> event list) option"
where
  "authStateCallback k g user w log st =
     (let currentUserId = currentUserId_init k w
      in case user of
           Some u \<Rightarrow> Some (st\<lparr>userId := currentUserId, isAuthReady := True\<rparr>, w, log)
         | None \<Rightarrow>
             (case withRetry_default (remote k (signIn_call g)) w log of
                None \<Rightarrow> None
              | Some (Inr _, w', log') \<Rightarrow>
                  Some (st\<lparr>userId := currentUser_uid (currentUser k (env w')),
                           isAuthReady := True\<rparr>, w', log')
              | Some (Inl e, w', log') \<Rightarrow>
                  Some (st\<lparr>userId := currentUserId, isAuthReady := True\<rparr>, w', log')))"

text \<open>
  What happens to the hook: its effect runs (on mount), or the backend notifies the
  listener; each finds the world as it then is. A run starts from the initial state.
\<close>

datatype 'env firebase_input =
    Mount "'env world"
  | Notify "user option" "'env world" "event list"

fun firebase_step ::
  "('e, 'env) sdk \<Rightarrow> globals \<Rightarrow> 'env firebase_input \<Rightarrow> firebase_state \<Rightarrow> firebase_state option"
where
  "firebase_step k g (Mount w) st = Some (fst (useFirebaseSetup_effect k g w st))"
| "firebase_step k g (Notify user w log) st =
     (case authStateCallback k g user w log st of
        None \<Rightarrow> None
      | Some (st', w', log') \<Rightarrow> Some st')"

fun firebase_run ::
  "('e, 'env) sdk \<Rightarrow> globals \<Rightarrow> 'env firebase_input list \<Rightarrow> firebase_state \<Rightarrow> firebase_state option"
where
  "firebase_run k g [] st = Some st"
| "firebase_run k g (i # ins) st =
     (case firebase_step k g i st of None \<Rightarrow> None | Some st' \<Rightarrow> firebase_run k g ins st')"

section \<open>\<open>useCmsConfig\<close>\<close>

text \<open>
  The two references of lines 89-90. \<open>getCmsDocRef\<close> is called in the effect outside
  any \<^verbatim>\<open>try\<close>; \<^verbatim>\<open>doc\<close> is taken to return there, and the reference is its path.
  \<open>getLeadsCollectionRef\<close> is called inside the \<^verbatim>\<open>try\<close> of \<open>submitLead\<close> with an
  identifier that comes from outside, so it is what \<^verbatim>\<open>collection\<close> makes of the
  segments: an error thrown, or the reference.
\<close>

definition getCmsDocRef :: "string \<Rightarrow> path" where
  "getCmsDocRef app = [''artifacts'', app, ''public'', ''data'', ''zorix_cms_config'', ''metrics'']"

definition getLeadsCollectionRef :: "('e, 'env) sdk \<Rightarrow> string \<Rightarrow> string \<Rightarrow> 'e + path" where
  "getLeadsCollectionRef k app u = collection k [''artifacts'', app, ''users'', u, ''zorix_leads'']"

definition defaultData :: doc_data where
  "defaultData =
     [''years'' \<mapsto> ''5+'', ''countries'' \<mapsto> ''15+'', ''projects'' \<mapsto> ''500+'',
      ''customers'' \<mapsto> ''300+'']"

text \<open>
  The hook's state: the \<open>config\<close> it returns, and whether its snapshot listener is
  registered.
\<close>

record cms_state =
  config :: doc_data
  subscribed :: bool

definition cms_initial :: cms_state where
  "cms_initial = \<lparr>config = defaultData, subscribed = False\<rparr>"

text \<open>
  \<^verbatim>\<open>initializeDoc\<close> (lines 106-112): the seed write under \<open>withRetry\<close>, its failure
  caught and logged only.
\<close>

definition initializeDoc ::
  "('e, 'env) sdk \<Rightarrow> globals \<Rightarrow> 'env world \<Rightarrow> event list \<Rightarrow> ('env world \<times> event list) option"
where
  "initializeDoc k g w log =
     (case withRetry_default (remote k (SetDoc (getCmsDocRef (appId g)) defaultData True)) w log of
        None \<Rightarrow> None
      | Some (r, w', log') \<Rightarrow> Some (w', log'))"

text \<open>
  What a snapshot listener receives: a snapshot, which holds the document's data when
  \<^verbatim>\<open>docSnap.exists()\<close> and nothing otherwise, or an error. The two callbacks of lines
  116-126 give the next \<open>config\<close>.
\<close>

datatype 'e delivery = DocSnap "doc_data option" | SnapshotError 'e

fun onSnapshot_callback :: "'e delivery \<Rightarrow> doc_data" where
  "onSnapshot_callback (DocSnap (Some d)) = d"
| "onSnapshot_callback (DocSnap None) = defaultData"
| "onSnapshot_callback (SnapshotError error) = defaultData"

text \<open>
  The body of the effect (lines 100-128). \<^verbatim>\<open>initializeDoc()\<close> is started and not
  awaited; it never touches \<open>config\<close> and the listener's callbacks never send a request,
  so the seed write is run here to its end before the listener is registered.
\<close>

definition useCmsConfig_effect ::
  "('e, 'env) sdk \<Rightarrow> globals \<Rightarrow> firestore option \<Rightarrow> bool \<Rightarrow> 'env world \<times> event list \<times> cms_state
     \<Rightarrow> ('env world \<times> event list \<times> cms_state) option"
where
  "useCmsConfig_effect k g db' ready c =
     (case c of (w, log, st) \<Rightarrow>
        if db' = None \<or> \<not> ready then Some (w, log, st)
        else
          (case initializeDoc k g w log of
             None \<Rightarrow> None
           | Some (w', log') \<Rightarrow>
               Some (w'\<lparr>calls := calls w' @ [OnSnapshot (getCmsDocRef (appId g))]\<rparr>, log',
                     st\<lparr>subscribed := True\<rparr>)))"

text \<open>The cleanup \<^verbatim>\<open>() => unsubscribe()\<close> that the effect returns once it has subscribed.\<close>

definition cms_cleanup ::
  "globals \<Rightarrow> 'env world \<times> event list \<times> cms_state \<Rightarrow> 'env world \<times> event list \<times> cms_state"
where
  "cms_cleanup g c =
     (case c of (w, log, st) \<Rightarrow>
        if subscribed st
        then (w\<lparr>calls := calls w @ [Unsubscribe (getCmsDocRef (appId g))]\<rparr>, log,
              st\<lparr>subscribed := False\<rparr>)
        else (w, log, st))"

text \<open>
  What happens to a mounted hook: a render with new values of its dependencies
  \<^verbatim>\<open>[db, isAuthReady]\<close> (the first one is the mount), on which React runs the previous
  cleanup and then the effect; or a delivery from the backend, which reaches the
  callbacks while the listener is registered.
\<close>

datatype 'e cms_input = Render "firestore option" bool | Deliver "'e delivery"

fun cms_step ::
  "('e, 'env) sdk \<Rightarrow> globals \<Rightarrow> 'e cms_input \<Rightarrow> 'env world \<times> event list \<times> cms_state
     \<Rightarrow> ('env world \<times> event list \<times> cms_state) option"
where
  "cms_step k g (Render db' ready) c = useCmsConfig_effect k g db' ready (cms_cleanup g c)"
| "cms_step k g (Deliver ev) (w, log, st) =
     Some (w, log, if subscribed st then st\<lparr>config := onSnapshot_callback ev\<rparr> else st)"

fun cms_run ::
  "('e, 'env) sdk \<Rightarrow> globals \<Rightarrow> 'e cms_input list \<Rightarrow> 'env world \<times> event list \<times> cms_state
     \<Rightarrow> ('env world \<times> event list \<times> cms_state) option"
where
  "cms_run k g [] c = Some c"
| "cms_run k g (i # ins) c =
     (case cms_step k g i c of None \<Rightarrow> None | Some c' \<Rightarrow> cms_run k g ins c')"

section \<open>\<open>submitLead\<close>\<close>

record result =
  success :: bool
  message :: string

definition not_ready_result :: result where
  "not_ready_result = \<lparr>success = False, message = ''System not ready. Please try again later.''\<rparr>"

definition success_result :: result where
  "success_result =
     \<lparr>success = True, message = ''Thank you! Your inquiry has been successfully submitted.''\<rparr>"

definition failure_result :: result where
  "failure_result =
     \<lparr>success = False, message = ''Submission failed. Please check your network connection.''\<rparr>"

text \<open>
  The record built by the arrow function of lines 145-149, anew at every attempt:
  \<^verbatim>\<open>{...formData, timestamp: new Date().toISOString(), status: 'New'}\<close>.
\<close>

definition lead_record :: "('e, 'env) sdk \<Rightarrow> doc_data \<Rightarrow> 'env \<Rightarrow> doc_data" where
  "lead_record k formData e = formData(''timestamp'' \<mapsto> toISOString k e, ''status'' \<mapsto> ''New'')"

definition addLead ::
  "('e, 'env) sdk \<Rightarrow> path \<Rightarrow> doc_data \<Rightarrow> 'env world \<Rightarrow> ('e + unit) \<times> 'env world"
where
  "addLead k leadsCollectionRef formData w =
     remote k (AddDoc leadsCollectionRef (lead_record k formData (env w))) w"

text \<open>
  \<open>submitLead\<close> (lines 137-155). \<^verbatim>\<open>!db || !userId\<close> holds for a \<^verbatim>\<open>null\<close> handle and
  for the identifiers \<^verbatim>\<open>null\<close>, \<^verbatim>\<open>undefined\<close> and \<^verbatim>\<open>''\<close>. Everything after the guard
  is inside the \<^verbatim>\<open>try\<close>: an error thrown while the reference is built (line 144) is
  caught like one that \<open>withRetry\<close> rethrows, and gives the same failure result.
\<close>

definition submitLead ::
  "('e, 'env) sdk \<Rightarrow> globals \<Rightarrow> firestore option \<Rightarrow> ident \<Rightarrow> doc_data \<Rightarrow> 'env world \<Rightarrow> event list
     \<Rightarrow> (result \<times> 'env world \<times> event list) option"
where
  "submitLead k g db' userId' formData w log =
     (if db' = None then Some (not_ready_result, w, log)
      else case userId' of
        Null \<Rightarrow> Some (not_ready_result, w, log)
      | Undefined \<Rightarrow> Some (not_ready_result, w, log)
      | Id u \<Rightarrow>
          if u = [] then Some (not_ready_result, w, log)
          else
            (case getLeadsCollectionRef k (appId g) u of
               Inl error \<Rightarrow> Some (failure_result, w, log)
             | Inr leadsCollectionRef \<Rightarrow>
                 (case withRetry_default (addLead k leadsCollectionRef formData) w log of
                    None \<Rightarrow> None
                  | Some (Inr _, w', log') \<Rightarrow> Some (success_result, w', log')
                  | Some (Inl error, w', log') \<Rightarrow> Some (failure_result, w', log'))))"

section \<open>Concrete backends for sample runs\<close>

text \<open>
  An environment that only counts the requests it has served. The backend rejects the
  first \<open>n\<close> requests and accepts every later one; once it has accepted one, its
  current user is \<open>cu\<close>. Its \<open>collection\<close> throws when a segment is empty or has a
  slash in it, and gives the segments as the reference otherwise.
\<close>

definition scripted_sdk :: "nat \<Rightarrow> user option \<Rightarrow> (string, nat) sdk" where
  "scripted_sdk n cu =
     \<lparr>respond = (\<lambda>c served. (if served < n then Inl ''unavailable'' else Inr (), Suc served)),
      initializeApp = (\<lambda>cfg served. Inr (Firestore, AuthInstance)),
      onAuthStateChanged = (\<lambda>served. None),
      currentUser = (\<lambda>served. if n < served then cu else None),
      collection = (\<lambda>segments.
        if list_ex (\<lambda>s. s = [] \<or> CHR ''/'' \<in> set s) segments then Inl ''invalid-argument''
        else Inr segments),
      toISOString = (\<lambda>served. ''2024-05-01T12:00:00.000Z''),
      randomUUID = (\<lambda>served. ''3f2b8c1e-5a4d-4e6f-9b7a-0c1d2e3f4a5b'')\<rparr>"

definition sample_globals :: globals where
  "sample_globals =
     \<lparr>appId = ''default-app-id'', firebaseConfig = Some ''{}'', initialAuthToken = None\<rparr>"

text \<open>The same SDK on a platform whose clock reads \<open>t\<close>.\<close>

definition with_clock :: "string \<Rightarrow> ('e, 'env) sdk \<Rightarrow> ('e, 'env) sdk" where
  "with_clock t k = k\<lparr>toISOString := (\<lambda>e. t)\<rparr>"

definition fresh_world :: "nat world" where
  "fresh_world = \<lparr>env = 0, calls = []\<rparr>"

text \<open>The records that the requests \<open>cs\<close> ask to append to the collection \<open>p\<close>.\<close>

fun lead_writes :: "path \<Rightarrow> remote_call list \<Rightarrow> doc_data list" where
  "lead_writes p [] = []"
| "lead_writes p (AddDoc q r # cs) = (if q = p then r # lead_writes p cs else lead_writes p cs)"
| "lead_writes p (c # cs) = lead_writes p cs"

text \<open>Projections of a run's result, and the inputs on which the guard of line 101 passes.\<close>

definition view_of :: "('w \<times> 'l \<times> cms_state) option \<Rightarrow> doc_data option" where
  "view_of r = map_option (\<lambda>c. config (snd (snd c))) r"

fun guard_passes :: "'e cms_input \<Rightarrow> bool" where
  "guard_passes (Render db' ready) = (db' \<noteq> None \<and> ready)"
| "guard_passes (Deliver ev) = False"

section \<open>Properties of \<open>withRetry\<close>\<close>

lemma state_after_Suc: "state_after fn s (Suc n) = snd (fn (state_after fn s n))"
  by (induction n arbitrary: s) simp_all

lemma attempt_0: "attempt fn s 0 = fst (fn s)"
  by (simp add: attempt_def)

lemma attempt_Suc: "attempt fn s (Suc k) = attempt fn (snd (fn s)) k"
  by (simp add: attempt_def)

lemma invocations_backoff: "invocations (backoff d n @ [Invoked]) = Suc n"
  by (induction n arbitrary: d) (simp_all add: invocations_def)

lemma waits_append_Invoked: "waits (es @ [Invoked]) = waits es"
  by (induction es rule: waits.induct) simp_all

lemma waits_backoff: "waits (backoff d n) = map (\<lambda>k. d * 2 ^ k) [0..<n]"
proof (induction n arbitrary: d)
  case 0
  show ?case by simp
next
  case (Suc n)
  have "map (\<lambda>k. d * 2 ^ k) [0..<Suc n] = d # map (\<lambda>k. d * 2 ^ Suc k) [0..<n]"
    by (simp add: upt_conv_Cons map_Suc_upt [symmetric] del: upt_Suc)
  then show ?case using Suc.IH [of "d * 2"] by (simp add: mult.assoc)
qed

lemma withRetry_all_fail:
  assumes "\<forall>k\<le>n. isl (attempt fn s k)"
  shows "withRetry fn (int n) d s log =
           Some (attempt fn s n, state_after fn s (Suc n), log @ backoff d n @ [Invoked])"
  using assms
proof (induction n arbitrary: d s log)
  case 0
  then have "isl (fst (fn s))" by (simp add: attempt_0)
  then obtain e s' where "fn s = (Inl e, s')"
    by (cases "fn s") (auto simp: isl_def)
  then show ?case
    by (subst withRetry.simps) (simp add: attempt_0)
next
  case (Suc n)
  from Suc.prems have "isl (attempt fn s 0)" by blast
  then obtain e s' where f: "fn s = (Inl e, s')"
    by (cases "fn s") (auto simp: isl_def attempt_0)
  have "\<forall>k\<le>n. isl (attempt fn s' k)"
  proof (intro allI impI)
    fix k assume "k \<le> n"
    then have "isl (attempt fn s (Suc k))" using Suc.prems by simp
    then show "isl (attempt fn s' k)" using f by (simp add: attempt_Suc)
  qed
  then have "withRetry fn (int n) (d * 2) s' (log @ [Invoked, Waited d]) =
      Some (attempt fn s' n, state_after fn s' (Suc n),
            (log @ [Invoked, Waited d]) @ backoff (d * 2) n @ [Invoked])"
    by (rule Suc.IH)
  then show ?case using f
    by (subst withRetry.simps) (simp add: attempt_Suc)
qed

lemma withRetry_succeeds_at:
  assumes "\<forall>j<k. isl (attempt fn s j)" and "\<not> isl (attempt fn s k)"
    and "retries < 0 \<or> int k \<le> retries"
  shows "withRetry fn retries d s log =
           Some (attempt fn s k, state_after fn s (Suc k), log @ backoff d k @ [Invoked])"
  using assms
proof (induction k arbitrary: retries d s log)
  case 0
  then have "\<not> isl (fst (fn s))" by (simp add: attempt_0)
  then obtain v s' where "fn s = (Inr v, s')"
    by (cases "fn s"; cases "fst (fn s)") auto
  then show ?case
    by (subst withRetry.simps) (simp add: attempt_0)
next
  case (Suc k)
  from Suc.prems(1) have "isl (attempt fn s 0)" by blast
  then obtain e s' where f: "fn s = (Inl e, s')"
    by (cases "fn s") (auto simp: isl_def attempt_0)
  have a: "\<forall>j<k. isl (attempt fn s' j)"
  proof (intro allI impI)
    fix j assume "j < k"
    then have "isl (attempt fn s (Suc j))" using Suc.prems(1) by simp
    then show "isl (attempt fn s' j)" using f by (simp add: attempt_Suc)
  qed
  have b: "\<not> isl (attempt fn s' k)"
    using Suc.prems(2) f by (simp add: attempt_Suc)
  have c: "retries - 1 < 0 \<or> int k \<le> retries - 1" and nz: "retries \<noteq> 0"
    using Suc.prems(3) by auto
  have "withRetry fn (retries - 1) (d * 2) s' (log @ [Invoked, Waited d]) =
      Some (attempt fn s' k, state_after fn s' (Suc k),
            (log @ [Invoked, Waited d]) @ backoff (d * 2) k @ [Invoked])"
    using a b c by (rule Suc.IH)
  then show ?case using f nz
    by (subst withRetry.simps) (simp add: attempt_Suc)
qed

lemma withRetry_total_nat: "\<exists>res. withRetry fn (int n) d s log = Some res"
proof (induction n arbitrary: d s log)
  case 0
  show ?case by (subst withRetry.simps) (simp split: prod.split sum.split)
next
  case (Suc n)
  have "\<exists>res. withRetry fn (int n) (d * 2) s' (log @ [Invoked, Waited d]) = Some res" for s'
    by (rule Suc.IH)
  then show ?case by (subst withRetry.simps) (simp split: prod.split sum.split)
qed

lemma withRetry_default_total: "\<exists>r s' log'. withRetry_default fn s log = Some (r, s', log')"
  using withRetry_total_nat [of fn 5 1000 s log] by (auto simp: withRetry_default_def)

lemma withRetry_default_all_fail:
  assumes "\<forall>j<6. isl (attempt fn s j)"
  shows "\<exists>error. withRetry_default fn s log =
           Some (Inl error, state_after fn s 6, log @ backoff 1000 5 @ [Invoked])
         \<and> attempt fn s 5 = Inl error"
proof -
  have "\<forall>j\<le>5. isl (attempt fn s j)" using assms by simp
  then have "withRetry fn (int 5) 1000 s log =
      Some (attempt fn s 5, state_after fn s (Suc 5), log @ backoff 1000 5 @ [Invoked])"
    by (rule withRetry_all_fail)
  moreover have "isl (attempt fn s 5)" using assms by simp
  then obtain error where "attempt fn s 5 = Inl error" by (auto simp: isl_def)
  ultimately show ?thesis by (simp add: withRetry_default_def del: state_after.simps)
qed

lemma withRetry_default_succeeds_at:
  assumes "j < 6" and "\<forall>i<j. isl (attempt fn s i)" and "attempt fn s j = Inr v"
  shows "withRetry_default fn s log =
           Some (Inr v, state_after fn s (Suc j), log @ backoff 1000 j @ [Invoked])"
proof -
  have "\<not> isl (attempt fn s j)" using assms(3) by simp
  moreover have "(5::int) < 0 \<or> int j \<le> 5" using assms(1) by simp
  ultimately have "withRetry fn 5 1000 s log =
      Some (attempt fn s j, state_after fn s (Suc j), log @ backoff 1000 j @ [Invoked])"
    using assms(2) by (intro withRetry_succeeds_at)
  then show ?thesis using assms(3) by (simp add: withRetry_default_def del: state_after.simps)
qed

lemma truthy_currentUserId_init:
  "randomUUID k (env w) \<noteq> [] \<Longrightarrow> \<exists>u. currentUserId_init k w = Id u \<and> u \<noteq> []"
  by (cases "currentUser_uid (currentUser k (env w))")
     (simp_all add: currentUserId_init_def or_else_def truthy_def)

lemma currentUserId_init_no_user:
  "currentUser k (env w) = None \<Longrightarrow> currentUserId_init k w = Id (randomUUID k (env w))"
  by (simp add: currentUserId_init_def or_else_def truthy_def currentUser_uid_def)

lemma authStateCallback_ready:
  "\<exists>st' w' log'. authStateCallback k g user w log st = Some (st', w', log') \<and> isAuthReady st'"
proof (cases user)
  case None
  obtain r w' log' where
    "withRetry_default (remote k (signIn_call g)) w log = Some (r, w', log')"
    using withRetry_default_total [of "remote k (signIn_call g)" w log] by auto
  then show ?thesis using None
    by (cases r) (simp_all add: authStateCallback_def)
next
  case (Some u)
  then show ?thesis by (simp add: authStateCallback_def)
qed

lemma authStateCallback_all_fail:
  assumes "\<forall>j<6. isl (attempt (remote k (signIn_call g)) w j)"
  shows "authStateCallback k g None w log st =
           Some (st\<lparr>userId := currentUserId_init k w, isAuthReady := True\<rparr>,
                 state_after (remote k (signIn_call g)) w 6, log @ backoff 1000 5 @ [Invoked])"
proof -
  obtain error where "withRetry_default (remote k (signIn_call g)) w log =
      Some (Inl error, state_after (remote k (signIn_call g)) w 6, log @ backoff 1000 5 @ [Invoked])"
    using withRetry_default_all_fail [OF assms] by blast
  then show ?thesis by (simp add: authStateCallback_def del: state_after.simps)
qed

lemma authStateCallback_signed_in:
  assumes "j < 6" and "\<forall>i<j. isl (attempt (remote k (signIn_call g)) w i)"
    and "attempt (remote k (signIn_call g)) w j = Inr v"
  shows "authStateCallback k g None w log st =
           Some (st\<lparr>userId := currentUser_uid
                      (currentUser k (env (state_after (remote k (signIn_call g)) w (Suc j)))),
                    isAuthReady := True\<rparr>,
                 state_after (remote k (signIn_call g)) w (Suc j), log @ backoff 1000 j @ [Invoked])"
  using withRetry_default_succeeds_at [OF assms, of log]
  by (simp add: authStateCallback_def del: state_after.simps)

lemma initializeDoc_total: "\<exists>w' log'. initializeDoc k g w log = Some (w', log')"
proof -
  obtain r w' log' where
    "withRetry_default (remote k (SetDoc (getCmsDocRef (appId g)) defaultData True)) w log =
       Some (r, w', log')"
    using withRetry_default_total
      [of "remote k (SetDoc (getCmsDocRef (appId g)) defaultData True)" w log] by auto
  then show ?thesis by (simp add: initializeDoc_def)
qed

lemma useCmsConfig_effect_guard:
  "db' = None \<or> \<not> ready \<Longrightarrow> useCmsConfig_effect k g db' ready (w, log, st) = Some (w, log, st)"
  by (auto simp: useCmsConfig_effect_def)

lemma useCmsConfig_effect_subscribes:
  "db' \<noteq> None \<Longrightarrow> ready \<Longrightarrow>
   \<exists>w' log'. useCmsConfig_effect k g db' ready (w, log, st) =
     Some (w', log', st\<lparr>subscribed := True\<rparr>)"
  using initializeDoc_total [of k g w log] by (auto simp: useCmsConfig_effect_def)

lemma cms_cleanup_view:
  "\<exists>w' b. cms_cleanup g (w, log, st) = (w', log, st\<lparr>subscribed := b\<rparr>)"
proof (cases "subscribed st")
  case True
  then have "cms_cleanup g (w, log, st) =
      (w\<lparr>calls := calls w @ [Unsubscribe (getCmsDocRef (appId g))]\<rparr>, log,
       st\<lparr>subscribed := False\<rparr>)"
    by (simp add: cms_cleanup_def)
  then show ?thesis by blast
next
  case False
  then have "cms_cleanup g (w, log, st) = (w, log, st\<lparr>subscribed := subscribed st\<rparr>)"
    by (simp add: cms_cleanup_def)
  then show ?thesis by blast
qed

lemma cms_step_Render:
  "\<exists>w' log' b. cms_step k g (Render db' ready) (w, log, st) = Some (w', log', st\<lparr>subscribed := b\<rparr>)"
proof -
  obtain w1 b1 where c: "cms_cleanup g (w, log, st) = (w1, log, st\<lparr>subscribed := b1\<rparr>)"
    using cms_cleanup_view by blast
  show ?thesis
  proof (cases "db' = None \<or> \<not> ready")
    case True
    then show ?thesis using c by (simp add: useCmsConfig_effect_guard) blast
  next
    case False
    then obtain w2 log2 where
      "useCmsConfig_effect k g db' ready (w1, log, st\<lparr>subscribed := b1\<rparr>) =
         Some (w2, log2, st\<lparr>subscribed := b1\<rparr>\<lparr>subscribed := True\<rparr>)"
      using useCmsConfig_effect_subscribes [of db' ready k g w1 log "st\<lparr>subscribed := b1\<rparr>"] by auto
    then show ?thesis using c by simp blast
  qed
qed

lemma cms_step_view:
  assumes "cms_step k g i (w, log, st) = Some (w', log', st')"
  shows "config st' = config st \<or> (\<exists>ev. i = Deliver ev \<and> config st' = onSnapshot_callback ev)"
proof (cases i)
  case (Render db' ready)
  then show ?thesis using assms cms_step_Render [of k g db' ready w log st] by auto
next
  case (Deliver ev)
  then show ?thesis using assms by (auto split: if_splits)
qed

lemma cms_step_total: "\<exists>c'. cms_step k g i c = Some c'"
proof -
  obtain w log st where fields: "c = (w, log, st)" using prod_cases3 by blast
  show ?thesis
  proof (cases i)
    case (Render db' ready)
    then show ?thesis using fields cms_step_Render [of k g db' ready w log st] by auto
  next
    case (Deliver ev)
    then show ?thesis using fields by simp
  qed
qed

lemma cms_run_total: "\<exists>c'. cms_run k g ins c = Some c'"
proof (induction ins arbitrary: c)
  case Nil
  have "cms_run k g [] c = Some c" by simp
  then show ?case by (rule exI)
next
  case (Cons i ins)
  obtain c1 where "cms_step k g i c = Some c1" using cms_step_total by blast
  then show ?case using Cons.IH [of c1] by simp
qed

lemma onSnapshot_callback_cases:
  "onSnapshot_callback ev = defaultData \<or> (\<exists>d. ev = DocSnap (Some d) \<and> onSnapshot_callback ev = d)"
  by (cases ev rule: onSnapshot_callback.cases) simp_all

lemma cms_run_view:
  assumes "cms_run k g ins (w, log, st) = Some (w', log', st')"
  shows "config st' = config st \<or> config st' = defaultData
         \<or> (\<exists>d. Deliver (DocSnap (Some d)) \<in> set ins \<and> config st' = d)"
  using assms
proof (induction ins arbitrary: w log st)
  case Nil
  then show ?case by simp
next
  case (Cons i ins)
  obtain c1 where "cms_step k g i (w, log, st) = Some c1"
    using cms_step_total [of k g i "(w, log, st)"] by auto
  then obtain w1 log1 st1 where s: "cms_step k g i (w, log, st) = Some (w1, log1, st1)"
    by (cases c1 rule: prod_cases3) simp
  then have r: "cms_run k g ins (w1, log1, st1) = Some (w', log', st')"
    using Cons.prems by simp
  from Cons.IH [OF r] consider
    (keep) "config st' = config st1" | (dflt) "config st' = defaultData"
    | (later) "\<exists>d. Deliver (DocSnap (Some d)) \<in> set ins \<and> config st' = d" by blast
  then show ?case
  proof cases
    case keep
    from cms_step_view [OF s] show ?thesis
    proof
      assume "config st1 = config st"
      then show ?thesis using keep by simp
    next
      assume "\<exists>ev. i = Deliver ev \<and> config st1 = onSnapshot_callback ev"
      then obtain ev where ev: "i = Deliver ev" "config st1 = onSnapshot_callback ev" by blast
      from onSnapshot_callback_cases [of ev] show ?thesis
      proof
        assume "onSnapshot_callback ev = defaultData"
        then show ?thesis using keep ev by simp
      next
        assume "\<exists>d. ev = DocSnap (Some d) \<and> onSnapshot_callback ev = d"
        then obtain d where "ev = DocSnap (Some d)" "onSnapshot_callback ev = d" by blast
        then have "Deliver (DocSnap (Some d)) \<in> set (i # ins) \<and> config st' = d"
          using keep ev by simp
        then show ?thesis by blast
      qed
    qed
  next
    case dflt
    then show ?thesis by simp
  next
    case later
    then show ?thesis by auto
  qed
qed

lemma cms_run_append:
  "cms_run k g (xs @ ys) c =
     (case cms_run k g xs c of None \<Rightarrow> None | Some c' \<Rightarrow> cms_run k g ys c')"
  by (induction xs arbitrary: c) (simp_all split: option.split)

lemma cms_step_Deliver_subscribed:
  "cms_step k g (Deliver ev) (w, log, st) = Some (w', log', st') \<Longrightarrow>
   subscribed st' = subscribed st \<and> (subscribed st \<longrightarrow> config st' = onSnapshot_callback ev)"
  by (auto split: if_splits)

lemma defaultData_nonempty: "defaultData \<noteq> Map.empty"
  by (simp add: defaultData_def)

lemma cms_run_unsubscribed:
  assumes "\<forall>i\<in>set ins. \<not> guard_passes i" and "\<not> subscribed st"
  shows "cms_run k g ins (w, log, st) = Some (w, log, st)"
  using assms(1)
proof (induction ins)
  case Nil
  show ?case by simp
next
  case (Cons i ins)
  have "cms_step k g i (w, log, st) = Some (w, log, st)"
  proof (cases i)
    case (Render db' ready)
    then have "db' = None \<or> \<not> ready" using Cons.prems by simp
    then show ?thesis using Render assms(2)
      by (simp add: cms_cleanup_def useCmsConfig_effect_guard)
  next
    case (Deliver ev)
    then show ?thesis using assms(2) by simp
  qed
  then show ?case using Cons by simp
qed

lemma cms_run_deliveries:
  "subscribed st \<Longrightarrow>
   cms_run k g (map Deliver evs @ [Deliver (DocSnap (Some d))]) (w, log, st) =
     Some (w, log, st\<lparr>config := d\<rparr>)"
proof (induction evs arbitrary: st)
  case Nil
  then show ?case by simp
next
  case (Cons ev evs)
  have "subscribed (st\<lparr>config := onSnapshot_callback ev\<rparr>)" using Cons.prems by simp
  then have "cms_run k g (map Deliver evs @ [Deliver (DocSnap (Some d))])
          (w, log, st\<lparr>config := onSnapshot_callback ev\<rparr>) =
        Some (w, log, st\<lparr>config := onSnapshot_callback ev\<rparr>\<lparr>config := d\<rparr>)"
    by (rule Cons.IH)
  then show ?case using Cons.prems by simp
qed

lemma useFirebaseSetup_effect_fields:
  "userId (fst (useFirebaseSetup_effect k g w st)) = userId st
   \<and> (isAuthReady (fst (useFirebaseSetup_effect k g w st)) \<or> \<not> isAuthReady st)"
  by (simp add: useFirebaseSetup_effect_def Let_def split: option.split sum.split prod.split)

lemma authStateCallback_sets_ready:
  assumes "authStateCallback k g user w log st = Some (st', w', log')"
  shows "isAuthReady st'"
  using assms authStateCallback_ready [of k g user w log st] by auto

lemma firebase_step_not_ready:
  assumes "firebase_step k g i st = Some st'" and "\<not> isAuthReady st'"
  shows "\<not> isAuthReady st \<and> userId st' = userId st"
proof (cases i)
  case (Mount w)
  then show ?thesis using assms useFirebaseSetup_effect_fields [of k g w st] by auto
next
  case (Notify user w log)
  then show ?thesis using assms authStateCallback_sets_ready [of k g user w log st]
    by (auto split: option.splits)
qed

lemma not_ready_userId_Null:
  assumes "firebase_run k g ins st = Some st'" and "\<not> isAuthReady st'"
  shows "\<not> isAuthReady st \<and> userId st' = userId st"
  using assms
proof (induction ins arbitrary: st)
  case Nil
  then show ?case by simp
next
  case (Cons i ins)
  then obtain st1 where s: "firebase_step k g i st = Some st1"
    and r: "firebase_run k g ins st1 = Some st'"
    by (auto split: option.splits)
  have "\<not> isAuthReady st1 \<and> userId st' = userId st1"
    using Cons.IH [OF r Cons.prems(2)] .
  then show ?case using firebase_step_not_ready [OF s] by simp
qed

lemma submitLead_guard:
  "db' = None \<or> \<not> truthy userId' \<Longrightarrow>
   submitLead k g db' userId' formData w log = Some (not_ready_result, w, log)"
  by (cases userId') (auto simp: submitLead_def truthy_def)

lemma lead_writes_append:
  "lead_writes p (cs @ ds) = lead_writes p cs @ lead_writes p ds"
  by (induction p cs rule: lead_writes.induct) simp_all

lemma addLead_calls:
  "calls (snd (addLead k p formData w)) = calls w @ [AddDoc p (lead_record k formData (env w))]"
  by (simp add: addLead_def remote_def split: prod.split)

lemma state_after_addLead_calls:
  "length (calls (state_after (addLead k p formData) w n)) = length (calls w) + n
   \<and> length (lead_writes p (calls (state_after (addLead k p formData) w n))) =
       length (lead_writes p (calls w)) + n"
proof (induction n arbitrary: w)
  case 0
  show ?case by simp
next
  case (Suc n)
  show ?case
    using Suc.IH [of "snd (addLead k p formData w)"]
    by (simp add: addLead_calls lead_writes_append)
qed

lemma state_after_addLead_last:
  "calls (state_after (addLead k p formData) w (Suc j)) =
     calls (state_after (addLead k p formData) w j)
       @ [AddDoc p (lead_record k formData (env (state_after (addLead k p formData) w j)))]"
  by (simp only: state_after_Suc addLead_calls)

lemma submitLead_no_reference:
  assumes "db' \<noteq> None" and "u \<noteq> []" and "getLeadsCollectionRef k (appId g) u = Inl error"
  shows "submitLead k g db' (Id u) formData w log = Some (failure_result, w, log)"
  using assms by (auto simp: submitLead_def)

lemma submitLead_success_after:
  assumes "db' \<noteq> None" and "u \<noteq> []" and "getLeadsCollectionRef k (appId g) u = Inr ref"
    and "j < 6" and "\<forall>i<j. isl (attempt (addLead k ref formData) w i)"
    and "attempt (addLead k ref formData) w j = Inr v"
  shows "submitLead k g db' (Id u) formData w log =
           Some (success_result, state_after (addLead k ref formData) w (Suc j),
                 log @ backoff 1000 j @ [Invoked])"
  using assms(1-3) withRetry_default_succeeds_at [OF assms(4-6), of log]
  by (simp add: submitLead_def del: state_after.simps)

lemma submitLead_failure_after:
  assumes "db' \<noteq> None" and "u \<noteq> []" and "getLeadsCollectionRef k (appId g) u = Inr ref"
    and "\<forall>j<6. isl (attempt (addLead k ref formData) w j)"
  shows "submitLead k g db' (Id u) formData w log =
           Some (failure_result, state_after (addLead k ref formData) w 6,
                 log @ backoff 1000 5 @ [Invoked])"
proof -
  obtain error where
    "withRetry_default (addLead k ref formData) w log =
       Some (Inl error, state_after (addLead k ref formData) w 6, log @ backoff 1000 5 @ [Invoked])"
    using withRetry_default_all_fail [OF assms(4)] by blast
  then show ?thesis
    using assms(1-3) by (simp add: submitLead_def del: state_after.simps)
qed

section \<open>The claims\<close>

text \<open>
  Claim C1. Let \<open>N \<ge> 1\<close> be the maximum number of attempts, that is \<open>retries = N - 1\<close>
  (the default \<open>retries = 5\<close> is six attempts). If the operation fails at each of its
  first \<open>N\<close> calls, \<open>withRetry\<close> settles, having called it exactly \<open>N\<close> times; it waits
  \<open>d\<close> after the first failure and twice the previous wait after each later one
  (\<open>d, 2d, 4d, \<dots>\<close>, one wait between consecutive calls, none after the last); and it
  rejects with the very error of the last call.
\<close>

theorem withRetry_exhausted:
  assumes "1 \<le> N" and "\<forall>k<N. isl (attempt fn s k)"
  shows "withRetry fn (int N - 1) d s log =
           Some (attempt fn s (N - 1), state_after fn s N, log @ backoff d (N - 1) @ [Invoked])
         \<and> isl (attempt fn s (N - 1))
         \<and> invocations (backoff d (N - 1) @ [Invoked]) = N
         \<and> waits (backoff d (N - 1) @ [Invoked]) = map (\<lambda>i. d * 2 ^ i) [0..<N - 1]"
proof -
  from assms(1) obtain n where N: "N = Suc n" by (cases N) auto
  have "\<forall>k\<le>n. isl (attempt fn s k)" using assms(2) N by auto
  then have "withRetry fn (int n) d s log =
      Some (attempt fn s n, state_after fn s (Suc n), log @ backoff d n @ [Invoked])"
    by (rule withRetry_all_fail)
  moreover have "int N - 1 = int n" using N by simp
  moreover have "isl (attempt fn s n)" using assms(2) N by simp
  ultimately show ?thesis
    using N by (simp add: invocations_backoff waits_append_Invoked waits_backoff del: state_after.simps)
qed

theorem withRetry_exhausted_witness:
  "(1::nat) \<le> 3
   \<and> list_all (\<lambda>k. isl (attempt (\<lambda>n::nat. (Inl n :: nat + unit, Suc n)) 0 k)) [0..<3]
   \<and> withRetry (\<lambda>n::nat. (Inl n :: nat + unit, Suc n)) 2 1000 0 [] =
       Some (Inl 2, 3, [Invoked, Waited 1000, Invoked, Waited 2000, Invoked])"
proof -
  have h: "\<forall>k<3. isl (attempt (\<lambda>n::nat. (Inl n :: nat + unit, Suc n)) 0 k)"
    by (simp add: attempt_def numeral_3_eq_3 All_less_Suc)
  show ?thesis
    using h withRetry_exhausted [of 3 "\<lambda>n::nat. (Inl n :: nat + unit, Suc n)" 0 1000 "[]", OF _ h]
    by (simp add: attempt_def numeral_3_eq_3 numeral_2_eq_2)
qed

text \<open>
  Claim C2. If the operation fails at its first \<open>k - 1\<close> calls and returns \<open>v\<close> at call
  \<open>k\<close>, where \<open>k\<close> is at most the number of attempts allowed (\<open>retries + 1\<close>), then
  \<open>withRetry\<close> settles with \<open>v\<close> itself, having called the operation exactly \<open>k\<close> times;
  the last event of its trace is that successful call, so nothing is waited for after it.
\<close>

theorem withRetry_stops_on_success:
  assumes "1 \<le> k" and "int k \<le> retries + 1"
    and "\<forall>j<k - 1. isl (attempt fn s j)" and "attempt fn s (k - 1) = Inr v"
  shows "withRetry fn retries d s log =
           Some (Inr v, state_after fn s k, log @ backoff d (k - 1) @ [Invoked])
         \<and> invocations (backoff d (k - 1) @ [Invoked]) = k
         \<and> last (backoff d (k - 1) @ [Invoked]) = Invoked
         \<and> waits (backoff d (k - 1) @ [Invoked]) = map (\<lambda>i. d * 2 ^ i) [0..<k - 1]"
proof -
  from assms(1) obtain n where k: "k = Suc n" by (cases k) auto
  have "\<forall>j<n. isl (attempt fn s j)" using assms(3) k by simp
  moreover have "\<not> isl (attempt fn s n)" using assms(4) k by simp
  moreover have "retries < 0 \<or> int n \<le> retries" using assms(2) k by simp
  ultimately have "withRetry fn retries d s log =
      Some (attempt fn s n, state_after fn s (Suc n), log @ backoff d n @ [Invoked])"
    by (rule withRetry_succeeds_at)
  then show ?thesis
    using k assms(4)
    by (simp add: invocations_backoff waits_append_Invoked waits_backoff del: state_after.simps)
qed

theorem withRetry_stops_on_success_witness:
  "(1::nat) \<le> 3 \<and> int 3 \<le> 5 + 1
   \<and> list_all (\<lambda>j. isl (attempt (\<lambda>n::nat. (if n < 2 then Inl ''down'' else Inr (n * 7), Suc n)) 0 j))
         [0..<3 - 1]
   \<and> withRetry (\<lambda>n::nat. (if n < 2 then Inl ''down'' else Inr (n * 7), Suc n)) 5 1000 0 [] =
       Some (Inr 14, 3, [Invoked, Waited 1000, Invoked, Waited 2000, Invoked])"
proof -
  have h: "\<forall>j<3 - 1. isl (attempt (\<lambda>n::nat. (if n < 2 then Inl ''down'' else Inr (n * 7), Suc n)) 0 j)"
    by (simp add: attempt_def numeral_2_eq_2 All_less_Suc)
  have a: "attempt (\<lambda>n::nat. (if n < 2 then Inl ''down'' else Inr (n * 7), Suc n)) 0 (3 - 1) = Inr 14"
    by (simp add: attempt_def numeral_2_eq_2)
  show ?thesis
    using h withRetry_stops_on_success [of 3 5 "\<lambda>n::nat. (if n < 2 then Inl ''down'' else Inr (n * 7), Suc n)" 0 14 1000 "[]", OF _ _ h a]
    by (simp add: numeral_3_eq_3 numeral_2_eq_2)
qed

text \<open>
  Claim C3. \<open>useFirebaseSetup\<close> always gets to \<open>isAuthReady = True\<close>. Without a backend
  configuration the effect sets it at once, leaving the identity \<^verbatim>\<open>null\<close> and no
  database handle. Otherwise the effect either sets it (initialisation threw) or has
  registered the listener, and every call of the listener returns with it set, for any
  backend: the default retry budget makes the sign-in loop finite. When all six sign-in
  attempts fail, the listener returns after six calls and waits of 31000 ms in total,
  with an identifier that is a non-empty string, provided \<^verbatim>\<open>crypto.randomUUID()\<close> gives
  one; it is that UUID when the auth instance had no current user.
\<close>

theorem useFirebaseSetup_becomes_ready:
  "(firebaseConfig g = None \<longrightarrow>
      useFirebaseSetup_effect k g w firebase_initial =
        (\<lparr>db = None, auth = None, userId = Null, isAuthReady = True\<rparr>, False))
   \<and> (isAuthReady (fst (useFirebaseSetup_effect k g w st)) \<or> snd (useFirebaseSetup_effect k g w st))
   \<and> (\<exists>st' w' log'. authStateCallback k g user w log st = Some (st', w', log') \<and> isAuthReady st')
   \<and> (randomUUID k (env w) \<noteq> [] \<and> (\<forall>j<6. isl (attempt (remote k (signIn_call g)) w j)) \<longrightarrow>
        (\<exists>u. authStateCallback k g None w log st =
                Some (st\<lparr>userId := Id u, isAuthReady := True\<rparr>,
                      state_after (remote k (signIn_call g)) w 6, log @ backoff 1000 5 @ [Invoked])
            \<and> u \<noteq> []
            \<and> (currentUser k (env w) = None \<longrightarrow> u = randomUUID k (env w))))
   \<and> invocations (backoff 1000 5 @ [Invoked]) = 6
   \<and> sum_list (waits (backoff 1000 5 @ [Invoked])) = 31000"
proof (intro conjI impI)
  assume "firebaseConfig g = None"
  then show "useFirebaseSetup_effect k g w firebase_initial =
      (\<lparr>db = None, auth = None, userId = Null, isAuthReady = True\<rparr>, False)"
    by (simp add: useFirebaseSetup_effect_def firebase_initial_def)
next
  show "isAuthReady (fst (useFirebaseSetup_effect k g w st)) \<or> snd (useFirebaseSetup_effect k g w st)"
    by (simp add: useFirebaseSetup_effect_def Let_def split: option.split sum.split prod.split)
next
  show "\<exists>st' w' log'. authStateCallback k g user w log st = Some (st', w', log') \<and> isAuthReady st'"
    by (rule authStateCallback_ready)
next
  assume a: "randomUUID k (env w) \<noteq> [] \<and> (\<forall>j<6. isl (attempt (remote k (signIn_call g)) w j))"
  then obtain u where u: "currentUserId_init k w = Id u" "u \<noteq> []"
    using truthy_currentUserId_init by blast
  have "currentUser k (env w) = None \<longrightarrow> u = randomUUID k (env w)"
    using u(1) by (auto simp: currentUserId_init_no_user)
  then show "\<exists>u. authStateCallback k g None w log st =
                Some (st\<lparr>userId := Id u, isAuthReady := True\<rparr>,
                      state_after (remote k (signIn_call g)) w 6, log @ backoff 1000 5 @ [Invoked])
            \<and> u \<noteq> []
            \<and> (currentUser k (env w) = None \<longrightarrow> u = randomUUID k (env w))"
    using a u authStateCallback_all_fail [of k g w log st] by auto
next
  show "invocations (backoff 1000 5 @ [Invoked]) = 6"
    by (simp add: invocations_backoff)
next
  show "sum_list (waits (backoff 1000 5 @ [Invoked])) = 31000"
    by (simp add: waits_append_Invoked waits_backoff eval_nat_numeral upt_conv_Cons)
qed

theorem useFirebaseSetup_becomes_ready_witness:
  "firebaseConfig (sample_globals\<lparr>firebaseConfig := None\<rparr>) = None
   \<and> randomUUID (scripted_sdk 6 None) (env fresh_world) \<noteq> []
   \<and> list_all (\<lambda>j. isl (attempt (remote (scripted_sdk 6 None)
                       (signIn_call (sample_globals\<lparr>firebaseConfig := None\<rparr>))) fresh_world j))
         [0..<6]
   \<and> useFirebaseSetup_effect (scripted_sdk 6 None) (sample_globals\<lparr>firebaseConfig := None\<rparr>)
        fresh_world firebase_initial =
       (\<lparr>db = None, auth = None, userId = Null, isAuthReady = True\<rparr>, False)
   \<and> authStateCallback (scripted_sdk 6 None) (sample_globals\<lparr>firebaseConfig := None\<rparr>) None
        fresh_world [] firebase_initial =
       Some (\<lparr>db = None, auth = None, userId = Id ''3f2b8c1e-5a4d-4e6f-9b7a-0c1d2e3f4a5b'',
              isAuthReady = True\<rparr>,
             \<lparr>env = 6, calls = replicate 6 SignInAnonymously\<rparr>,
             [Invoked, Waited 1000, Invoked, Waited 2000, Invoked, Waited 4000, Invoked,
              Waited 8000, Invoked, Waited 16000, Invoked])"
proof -
  have h: "\<forall>j<6. isl (attempt (remote (scripted_sdk 6 None)
                       (signIn_call (sample_globals\<lparr>firebaseConfig := None\<rparr>))) fresh_world j)"
    by (simp add: eval_nat_numeral All_less_Suc attempt_def remote_def scripted_sdk_def
        fresh_world_def signIn_call_def sample_globals_def)
  show ?thesis
    using h useFirebaseSetup_becomes_ready [of "sample_globals\<lparr>firebaseConfig := None\<rparr>"
        "scripted_sdk 6 None" fresh_world firebase_initial None "[]"]
    by (simp add: eval_nat_numeral remote_def scripted_sdk_def fresh_world_def signIn_call_def
        sample_globals_def firebase_initial_def)
qed

text \<open>
  Claim C10. In the auth-state listener the fallback identifier is computed on entry,
  from the world as it is before any sign-in request
  (\<^verbatim>\<open>authInstance.currentUser?.uid || crypto.randomUUID()\<close>). It is the \<open>userId\<close> set
  when a user is passed (no sign-in is attempted, the world is untouched) and when all six
  sign-in attempts fail. When a sign-in attempt succeeds, \<open>userId\<close> is set to
  \<^verbatim>\<open>authInstance.currentUser?.uid\<close> as it is after that attempt, with no fallback: if
  the backend then has no current user, \<open>userId\<close> is \<^verbatim>\<open>undefined\<close> while
  \<open>isAuthReady\<close> is true.
\<close>

theorem authStateCallback_userId:
  "authStateCallback k g (Some u) w log st =
     Some (st\<lparr>userId := currentUserId_init k w, isAuthReady := True\<rparr>, w, log)
   \<and> ((\<forall>j<6. isl (attempt (remote k (signIn_call g)) w j)) \<longrightarrow>
        authStateCallback k g None w log st =
          Some (st\<lparr>userId := currentUserId_init k w, isAuthReady := True\<rparr>,
                state_after (remote k (signIn_call g)) w 6, log @ backoff 1000 5 @ [Invoked]))
   \<and> (j < 6 \<and> (\<forall>i<j. isl (attempt (remote k (signIn_call g)) w i))
        \<and> attempt (remote k (signIn_call g)) w j = Inr v \<longrightarrow>
        authStateCallback k g None w log st =
          Some (st\<lparr>userId := currentUser_uid
                     (currentUser k (env (state_after (remote k (signIn_call g)) w (Suc j)))),
                   isAuthReady := True\<rparr>,
                state_after (remote k (signIn_call g)) w (Suc j), log @ backoff 1000 j @ [Invoked])
        \<and> (currentUser k (env (state_after (remote k (signIn_call g)) w (Suc j))) = None \<longrightarrow>
             authStateCallback k g None w log st =
               Some (st\<lparr>userId := Undefined, isAuthReady := True\<rparr>,
                     state_after (remote k (signIn_call g)) w (Suc j),
                     log @ backoff 1000 j @ [Invoked])))
   \<and> currentUserId_init k w =
       or_else (currentUser_uid (currentUser k (env w))) (Id (randomUUID k (env w)))"
proof (intro conjI impI)
  show "authStateCallback k g (Some u) w log st =
     Some (st\<lparr>userId := currentUserId_init k w, isAuthReady := True\<rparr>, w, log)"
    by (simp add: authStateCallback_def)
next
  assume "\<forall>j<6. isl (attempt (remote k (signIn_call g)) w j)"
  then show "authStateCallback k g None w log st =
          Some (st\<lparr>userId := currentUserId_init k w, isAuthReady := True\<rparr>,
                state_after (remote k (signIn_call g)) w 6, log @ backoff 1000 5 @ [Invoked])"
    by (rule authStateCallback_all_fail)
next
  assume a: "j < 6 \<and> (\<forall>i<j. isl (attempt (remote k (signIn_call g)) w i))
        \<and> attempt (remote k (signIn_call g)) w j = Inr v"
  then show r: "authStateCallback k g None w log st =
          Some (st\<lparr>userId := currentUser_uid
                     (currentUser k (env (state_after (remote k (signIn_call g)) w (Suc j)))),
                   isAuthReady := True\<rparr>,
                state_after (remote k (signIn_call g)) w (Suc j), log @ backoff 1000 j @ [Invoked])"
    by (intro authStateCallback_signed_in) simp_all
  assume "currentUser k (env (state_after (remote k (signIn_call g)) w (Suc j))) = None"
  then show "authStateCallback k g None w log st =
               Some (st\<lparr>userId := Undefined, isAuthReady := True\<rparr>,
                     state_after (remote k (signIn_call g)) w (Suc j),
                     log @ backoff 1000 j @ [Invoked])"
    using r by (simp add: currentUser_uid_def del: state_after.simps)
next
  show "currentUserId_init k w =
       or_else (currentUser_uid (currentUser k (env w))) (Id (randomUUID k (env w)))"
    by (simp add: currentUserId_init_def)
qed

theorem authStateCallback_userId_witness:
  "(2::nat) < 6
   \<and> list_all (\<lambda>i. isl (attempt (remote (scripted_sdk 2 None) (signIn_call sample_globals))
                           fresh_world i)) [0..<2]
   \<and> attempt (remote (scripted_sdk 2 None) (signIn_call sample_globals)) fresh_world 2 = Inr ()
   \<and> currentUser (scripted_sdk 2 None)
        (env (state_after (remote (scripted_sdk 2 None) (signIn_call sample_globals)) fresh_world
           (Suc 2))) = None
   \<and> authStateCallback (scripted_sdk 2 None) sample_globals None fresh_world [] firebase_initial =
       Some (\<lparr>db = None, auth = None, userId = Undefined, isAuthReady = True\<rparr>,
             \<lparr>env = 3, calls = replicate 3 SignInAnonymously\<rparr>,
             [Invoked, Waited 1000, Invoked, Waited 2000, Invoked])"
proof -
  have h: "\<forall>i<2. isl (attempt (remote (scripted_sdk 2 None) (signIn_call sample_globals)) fresh_world i)"
    by (simp add: eval_nat_numeral All_less_Suc attempt_def remote_def scripted_sdk_def
        fresh_world_def signIn_call_def sample_globals_def)
  have a: "attempt (remote (scripted_sdk 2 None) (signIn_call sample_globals)) fresh_world 2 = Inr ()"
    by (simp add: eval_nat_numeral attempt_def remote_def scripted_sdk_def
        fresh_world_def signIn_call_def sample_globals_def)
  have c: "currentUser (scripted_sdk 2 None)
        (env (state_after (remote (scripted_sdk 2 None) (signIn_call sample_globals)) fresh_world
           (Suc 2))) = None"
    by (simp add: scripted_sdk_def)
  have "authStateCallback (scripted_sdk 2 None) sample_globals None fresh_world [] firebase_initial =
      Some (firebase_initial\<lparr>userId := Undefined, isAuthReady := True\<rparr>,
            state_after (remote (scripted_sdk 2 None) (signIn_call sample_globals)) fresh_world (Suc 2),
            [] @ backoff 1000 2 @ [Invoked])"
    using h a c authStateCallback_userId [of "scripted_sdk 2 None" sample_globals "\<lparr>uid = Null\<rparr>" fresh_world "[]"
        firebase_initial 2 "()"]
    by (simp add: currentUser_uid_def)
  then show ?thesis
    using h a c
    by (simp add: eval_nat_numeral remote_def scripted_sdk_def fresh_world_def signIn_call_def
        sample_globals_def firebase_initial_def)
qed

text \<open>
  Claim C4, as stated, fails: the view is whatever an existing remote document holds. A
  backend that rejects the seed write and then delivers a snapshot of an existing
  document with no fields leaves the view empty.
\<close>

theorem cms_view_empty_counterexample:
  "view_of (cms_run (scripted_sdk 6 None) sample_globals
      [Render (Some Firestore) True, Deliver (DocSnap (Some Map.empty))]
      (fresh_world, [], cms_initial)) = Some Map.empty"
  by (simp add: view_of_def useCmsConfig_effect_def cms_cleanup_def cms_initial_def
      initializeDoc_def withRetry_default_def withRetry.simps remote_def scripted_sdk_def
      fresh_world_def)

text \<open>
  Claim C4, amended. Whatever is rendered and delivered, and whatever the backend does,
  the hook does not block, and its view is the compiled-in default mapping (which is not
  empty, and is the view at construction) or the data of an existing-document snapshot
  that was delivered; while the listener is registered the view is what the callbacks
  make of the latest delivery. So the view is not empty as long as no delivered existing
  document is empty.
\<close>

theorem cms_view_remote_or_default:
  "(\<exists>w' log' st'. cms_run k g ins (w, log, cms_initial) = Some (w', log', st')
      \<and> (config st' = defaultData \<or> (\<exists>d. Deliver (DocSnap (Some d)) \<in> set ins \<and> config st' = d))
      \<and> ((\<forall>d. Deliver (DocSnap (Some d)) \<in> set ins \<longrightarrow> d \<noteq> Map.empty) \<longrightarrow>
           config st' \<noteq> Map.empty)
      \<and> (\<forall>ins0 ev. ins = ins0 @ [Deliver ev] \<and> subscribed st' \<longrightarrow>
           config st' = onSnapshot_callback ev))
   \<and> config cms_initial = defaultData \<and> defaultData \<noteq> Map.empty"
proof -
  obtain c where "cms_run k g ins (w, log, cms_initial) = Some c"
    using cms_run_total by blast
  then obtain w' log' st' where r: "cms_run k g ins (w, log, cms_initial) = Some (w', log', st')"
    by (cases c rule: prod_cases3) simp
  have v: "config st' = defaultData \<or> (\<exists>d. Deliver (DocSnap (Some d)) \<in> set ins \<and> config st' = d)"
    using cms_run_view [OF r] by (auto simp: cms_initial_def)
  have n: "(\<forall>d. Deliver (DocSnap (Some d)) \<in> set ins \<longrightarrow> d \<noteq> Map.empty) \<longrightarrow>
      config st' \<noteq> Map.empty"
    using v defaultData_nonempty by auto
  have l: "config st' = onSnapshot_callback ev" if "ins = ins0 @ [Deliver ev]" "subscribed st'"
    for ins0 ev
  proof -
    obtain c1 where c1: "cms_run k g ins0 (w, log, cms_initial) = Some c1"
      using cms_run_total by blast
    obtain w1 log1 st1 where f: "c1 = (w1, log1, st1)" using prod_cases3 by blast
    have "cms_step k g (Deliver ev) (w1, log1, st1) = Some (w', log', st')"
      using r that(1) c1 f
      by (auto simp: cms_run_append simp del: cms_step.simps split: option.splits)
    then show ?thesis using cms_step_Deliver_subscribed that(2) by blast
  qed
  show ?thesis using r v n l
    by (simp add: cms_initial_def defaultData_nonempty del: fun_upd_apply)
qed

theorem cms_view_remote_or_default_witness:
  "[''years'' \<mapsto> ''7+''] \<noteq> Map.empty
   \<and> view_of (cms_run (scripted_sdk 6 None) sample_globals
        [Render (Some Firestore) True, Deliver (DocSnap (Some [''years'' \<mapsto> ''7+''])),
         Deliver (SnapshotError ''denied'')]
        (fresh_world, [], cms_initial)) = Some defaultData
   \<and> view_of (cms_run (scripted_sdk 6 None) sample_globals
        [Render (Some Firestore) True, Deliver (DocSnap (Some [''years'' \<mapsto> ''7+''])),
         Deliver (SnapshotError ''denied'')]
        (fresh_world, [], cms_initial)) \<noteq> Some Map.empty"
proof -
  have h: "\<forall>d. Deliver (DocSnap (Some d)) \<in> set
        [Render (Some Firestore) True, Deliver (DocSnap (Some [''years'' \<mapsto> ''7+''])),
         Deliver (SnapshotError ''denied'' :: string delivery)] \<longrightarrow> d \<noteq> Map.empty"
    by auto
  have e: "view_of (cms_run (scripted_sdk 6 None) sample_globals
        [Render (Some Firestore) True, Deliver (DocSnap (Some [''years'' \<mapsto> ''7+''])),
         Deliver (SnapshotError ''denied'')]
        (fresh_world, [], cms_initial)) = Some defaultData"
    by (simp add: view_of_def useCmsConfig_effect_def cms_cleanup_def cms_initial_def
        initializeDoc_def withRetry_default_def withRetry.simps remote_def scripted_sdk_def
        fresh_world_def)
  have n: "view_of (cms_run (scripted_sdk 6 None) sample_globals
        [Render (Some Firestore) True, Deliver (DocSnap (Some [''years'' \<mapsto> ''7+''])),
         Deliver (SnapshotError ''denied'')]
        (fresh_world, [], cms_initial)) \<noteq> Some Map.empty"
    using h cms_view_remote_or_default [of "scripted_sdk 6 None" sample_globals
      "[Render (Some Firestore) True, Deliver (DocSnap (Some [''years'' \<mapsto> ''7+''])),
        Deliver (SnapshotError ''denied'')]" fresh_world "[]"]
    by (auto simp: view_of_def simp del: set_simps)
  show ?thesis using e n by simp
qed

text \<open>
  Claim C5. Once the hook has subscribed, a delivery saying that the document does not
  exist followed by a snapshot with data \<open>{years: "7+"}\<close> leaves the view equal to exactly
  that mapping, which is not the defaults overlaid with it. In general, after any
  deliveries, a snapshot of an existing document with data \<open>d\<close> makes the view \<open>d\<close>.
\<close>

theorem cms_snapshot_verbatim:
  "(\<exists>w' log'. cms_run k g
        [Render (Some Firestore) True, Deliver (DocSnap None),
         Deliver (DocSnap (Some [''years'' \<mapsto> ''7+'']))]
        (w, log, cms_initial) =
      Some (w', log', \<lparr>config = [''years'' \<mapsto> ''7+''], subscribed = True\<rparr>))
   \<and> (subscribed st \<longrightarrow>
        cms_run k g (map Deliver evs @ [Deliver (DocSnap (Some d))]) (w, log, st) =
          Some (w, log, st\<lparr>config := d\<rparr>))
   \<and> [''years'' \<mapsto> ''7+''] \<noteq> defaultData ++ [''years'' \<mapsto> ''7+'']"
proof (intro conjI impI)
  obtain w' log' where
    "cms_step k g (Render (Some Firestore) True) (w, log, cms_initial) =
       Some (w', log', cms_initial\<lparr>subscribed := True\<rparr>)"
    using useCmsConfig_effect_subscribes [of "Some Firestore" True k g w log cms_initial]
    by (auto simp: cms_cleanup_def cms_initial_def)
  then have "cms_run k g
        [Render (Some Firestore) True, Deliver (DocSnap None),
         Deliver (DocSnap (Some [''years'' \<mapsto> ''7+'']))]
        (w, log, cms_initial) =
      Some (w', log', \<lparr>config = [''years'' \<mapsto> ''7+''], subscribed = True\<rparr>)"
    by (simp add: cms_initial_def del: cms_step.simps(1))
  then show "\<exists>w' log'. cms_run k g
        [Render (Some Firestore) True, Deliver (DocSnap None),
         Deliver (DocSnap (Some [''years'' \<mapsto> ''7+'']))]
        (w, log, cms_initial) =
      Some (w', log', \<lparr>config = [''years'' \<mapsto> ''7+''], subscribed = True\<rparr>)"
    by blast
next
  assume "subscribed st"
  then show "cms_run k g (map Deliver evs @ [Deliver (DocSnap (Some d))]) (w, log, st) =
          Some (w, log, st\<lparr>config := d\<rparr>)"
    by (rule cms_run_deliveries)
next
  have "(defaultData ++ [''years'' \<mapsto> ''7+'']) ''countries'' = Some ''15+''"
    by (simp add: defaultData_def map_add_def)
  moreover have "[''years'' \<mapsto> ''7+''] ''countries'' = None" by simp
  ultimately show "[''years'' \<mapsto> ''7+''] \<noteq> defaultData ++ [''years'' \<mapsto> ''7+'']"
    by (metis option.distinct(1))
qed

theorem cms_snapshot_verbatim_witness:
  "subscribed \<lparr>config = defaultData, subscribed = True\<rparr>
   \<and> cms_run (scripted_sdk 0 None) sample_globals
        (map Deliver [SnapshotError ''denied'', DocSnap None] @
           [Deliver (DocSnap (Some [''years'' \<mapsto> ''7+'']))])
        (fresh_world, [], \<lparr>config = defaultData, subscribed = True\<rparr>) =
       Some (fresh_world, [], \<lparr>config = [''years'' \<mapsto> ''7+''], subscribed = True\<rparr>)
   \<and> view_of (cms_run (scripted_sdk 0 None) sample_globals
        [Render (Some Firestore) True, Deliver (DocSnap None),
         Deliver (DocSnap (Some [''years'' \<mapsto> ''7+'']))]
        (fresh_world, [], cms_initial)) = Some [''years'' \<mapsto> ''7+'']"
proof -
  have h: "subscribed \<lparr>config = defaultData, subscribed = True\<rparr>" by simp
  from cms_snapshot_verbatim [of "scripted_sdk 0 None" sample_globals fresh_world "[]"
      "\<lparr>config = defaultData, subscribed = True\<rparr>"
      "[SnapshotError ''denied'', DocSnap None]" "[''years'' \<mapsto> ''7+'']"]
  have a: "\<exists>w' log'. cms_run (scripted_sdk 0 None) sample_globals
        [Render (Some Firestore) True, Deliver (DocSnap None),
         Deliver (DocSnap (Some [''years'' \<mapsto> ''7+'']))]
        (fresh_world, [], cms_initial) =
      Some (w', log', \<lparr>config = [''years'' \<mapsto> ''7+''], subscribed = True\<rparr>)"
    and b: "cms_run (scripted_sdk 0 None) sample_globals
        (map Deliver [SnapshotError ''denied'', DocSnap None] @
           [Deliver (DocSnap (Some [''years'' \<mapsto> ''7+'']))])
        (fresh_world, [], \<lparr>config = defaultData, subscribed = True\<rparr>) =
       Some (fresh_world, [], \<lparr>config = defaultData, subscribed = True\<rparr>
              \<lparr>config := [''years'' \<mapsto> ''7+'']\<rparr>)"
    using h by blast+
  from a have "view_of (cms_run (scripted_sdk 0 None) sample_globals
        [Render (Some Firestore) True, Deliver (DocSnap None),
         Deliver (DocSnap (Some [''years'' \<mapsto> ''7+'']))]
        (fresh_world, [], cms_initial)) = Some [''years'' \<mapsto> ''7+'']"
    by (auto simp: view_of_def)
  then show ?thesis using b by simp
qed

text \<open>
  Claim C6. With \<open>db\<close> absent or \<open>isAuthReady\<close> false the effect does nothing. As long as
  every render has one of the two, whatever is delivered, no request is sent (the world
  and the timers are as before), no listener is registered and the view is the
  compiled-in default. Hence, if the hook has sent any request, some earlier render had
  a database handle and \<open>isAuthReady\<close> true.
\<close>

theorem useCmsConfig_guard:
  "(db' = None \<or> \<not> ready \<longrightarrow>
      useCmsConfig_effect k g db' ready (w, log, st) = Some (w, log, st))
   \<and> ((\<forall>i\<in>set ins. \<not> guard_passes i) \<longrightarrow>
        cms_run k g ins (w, log, cms_initial) = Some (w, log, cms_initial))
   \<and> config cms_initial = defaultData
   \<and> (cms_run k g ins (w, log, cms_initial) = Some (w', log', st') \<and> calls w' \<noteq> calls w \<longrightarrow>
        (\<exists>i\<in>set ins. guard_passes i))"
proof (intro conjI impI)
  assume "db' = None \<or> \<not> ready"
  then show "useCmsConfig_effect k g db' ready (w, log, st) = Some (w, log, st)"
    by (rule useCmsConfig_effect_guard)
next
  assume "\<forall>i\<in>set ins. \<not> guard_passes i"
  then show "cms_run k g ins (w, log, cms_initial) = Some (w, log, cms_initial)"
    by (rule cms_run_unsubscribed) (simp add: cms_initial_def)
next
  show "config cms_initial = defaultData" by (simp add: cms_initial_def)
next
  assume a: "cms_run k g ins (w, log, cms_initial) = Some (w', log', st') \<and> calls w' \<noteq> calls w"
  show "\<exists>i\<in>set ins. guard_passes i"
  proof (rule ccontr)
    assume "\<not> (\<exists>i\<in>set ins. guard_passes i)"
    then have "\<forall>i\<in>set ins. \<not> guard_passes i" by blast
    then have "cms_run k g ins (w, log, cms_initial) = Some (w, log, cms_initial)"
      by (rule cms_run_unsubscribed) (simp add: cms_initial_def)
    then show False using a by simp
  qed
qed

theorem useCmsConfig_guard_witness:
  "(None = (None :: firestore option) \<or> \<not> True)
   \<and> list_all (\<lambda>i. \<not> guard_passes i)
         [Render None False, Deliver (DocSnap (Some [''years'' \<mapsto> ''7+''])),
          Render (Some Firestore) False, Render None True]
   \<and> useCmsConfig_effect (scripted_sdk 0 None) sample_globals None True
        (fresh_world, [], cms_initial) = Some (fresh_world, [], cms_initial)
   \<and> cms_run (scripted_sdk 0 None) sample_globals
        [Render None False, Deliver (DocSnap (Some [''years'' \<mapsto> ''7+''])),
         Render (Some Firestore) False, Render None True]
        (fresh_world, [], cms_initial) = Some (fresh_world, [], cms_initial)"
proof -
  have h: "\<forall>i\<in>set [Render None False, Deliver (DocSnap (Some [''years'' \<mapsto> ''7+''])),
                Render (Some Firestore) False, Render None True :: string cms_input].
             \<not> guard_passes i"
    by simp
  show ?thesis
    using h useCmsConfig_guard [of None True "scripted_sdk 0 None" sample_globals fresh_world "[]"
        cms_initial "[Render None False, Deliver (DocSnap (Some [''years'' \<mapsto> ''7+''])),
         Render (Some Firestore) False, Render None True]" fresh_world "[]" cms_initial]
    by auto
qed

text \<open>
  Claim C7. For every form data, \<open>submitLead\<close> called without a database handle or with
  an identifier that is \<^verbatim>\<open>null\<close>, \<^verbatim>\<open>undefined\<close> or empty returns the not-ready failure
  and leaves the world and the timers as they were: no request is sent and nothing is
  retried. This is so in particular for the handle and identifier of any state that
  \<open>useFirebaseSetup\<close> reaches in which \<open>isAuthReady\<close> is still false: there \<open>userId\<close> is
  still \<^verbatim>\<open>null\<close>.
\<close>

theorem submitLead_not_ready:
  "(db' = None \<or> \<not> truthy userId' \<longrightarrow>
      submitLead k g db' userId' formData w log = Some (not_ready_result, w, log))
   \<and> (firebase_run k g ins firebase_initial = Some st \<and> \<not> isAuthReady st \<longrightarrow>
        submitLead k g (db st) (userId st) formData w log = Some (not_ready_result, w, log))
   \<and> \<not> success not_ready_result
   \<and> message not_ready_result = ''System not ready. Please try again later.''"
proof (intro conjI impI)
  assume "db' = None \<or> \<not> truthy userId'"
  then show "submitLead k g db' userId' formData w log = Some (not_ready_result, w, log)"
    by (rule submitLead_guard)
next
  assume "firebase_run k g ins firebase_initial = Some st \<and> \<not> isAuthReady st"
  then have "userId st = userId firebase_initial" using not_ready_userId_Null by blast
  then have "db st = None \<or> \<not> truthy (userId st)"
    by (simp add: truthy_def firebase_initial_def)
  then show "submitLead k g (db st) (userId st) formData w log = Some (not_ready_result, w, log)"
    by (rule submitLead_guard)
next
  show "\<not> success not_ready_result" by (simp add: not_ready_result_def)
next
  show "message not_ready_result = ''System not ready. Please try again later.''"
    by (simp add: not_ready_result_def)
qed

theorem submitLead_not_ready_witness:
  "(Some Firestore = None \<or> \<not> truthy (Id []))
   \<and> firebase_run (scripted_sdk 0 None) sample_globals [Mount fresh_world] firebase_initial =
       Some \<lparr>db = Some Firestore, auth = Some AuthInstance, userId = Null, isAuthReady = False\<rparr>
   \<and> submitLead (scripted_sdk 0 None) sample_globals (Some Firestore) (Id [])
        [''name'' \<mapsto> ''Acme''] fresh_world [] = Some (not_ready_result, fresh_world, [])
   \<and> submitLead (scripted_sdk 0 None) sample_globals (Some Firestore) Null
        [''name'' \<mapsto> ''Acme''] fresh_world [] = Some (not_ready_result, fresh_world, [])"
proof -
  let ?st = "\<lparr>db = Some Firestore, auth = Some AuthInstance, userId = Null, isAuthReady = False\<rparr>"
  have t: "\<not> truthy (Id [])" by (simp add: truthy_def)
  have r: "firebase_run (scripted_sdk 0 None) sample_globals [Mount fresh_world] firebase_initial =
      Some ?st"
    by (simp add: useFirebaseSetup_effect_def scripted_sdk_def sample_globals_def
        firebase_initial_def)
  have n: "\<not> isAuthReady ?st" by simp
  have a: "submitLead (scripted_sdk 0 None) sample_globals (Some Firestore) (Id [])
        [''name'' \<mapsto> ''Acme''] fresh_world [] = Some (not_ready_result, fresh_world, [])"
    using t submitLead_not_ready [of "Some Firestore" "Id []" "scripted_sdk 0 None" sample_globals
        "[''name'' \<mapsto> ''Acme'']" fresh_world "[]" "[Mount fresh_world]" ?st]
    by blast
  have b: "submitLead (scripted_sdk 0 None) sample_globals (db ?st) (userId ?st)
        [''name'' \<mapsto> ''Acme''] fresh_world [] = Some (not_ready_result, fresh_world, [])"
    using r n submitLead_not_ready [of "Some Firestore" "Id []" "scripted_sdk 0 None" sample_globals
        "[''name'' \<mapsto> ''Acme'']" fresh_world "[]" "[Mount fresh_world]" ?st]
    by blast
  show ?thesis using t r a b by simp
qed

text \<open>
  Claim C8, as stated, fails in three respects, each shown by a run against a backend
  that accepts every request. A submitted field named \<open>status\<close> (or \<open>timestamp\<close>) is not
  in the record: the spread comes first in the object literal, so the record sent holds
  \<open>"New"\<close> and not the submitted \<open>"Closed"\<close>. The timestamp is not assigned by the
  server: the request that the program sends already holds it, and it is what the
  program's own clock reads, so the same backend with another clock gets another
  timestamp. And with the identifier \<open>a/b\<close> the guard passes, but building the collection
  reference throws inside the \<^verbatim>\<open>try\<close>: the result is the failure result and no request
  is sent.
\<close>

theorem submitLead_record_counterexample:
  "submitLead (scripted_sdk 0 None) sample_globals (Some Firestore) (Id ''u1'')
      [''name'' \<mapsto> ''Acme'', ''status'' \<mapsto> ''Closed''] fresh_world [] =
     Some (success_result,
           \<lparr>env = 1,
              calls = [AddDoc [''artifacts'', ''default-app-id'', ''users'', ''u1'', ''zorix_leads'']
                        [''name'' \<mapsto> ''Acme'', ''status'' \<mapsto> ''Closed'',
                         ''timestamp'' \<mapsto> ''2024-05-01T12:00:00.000Z'', ''status'' \<mapsto> ''New'']]\<rparr>,
           [Invoked])
   \<and> [''name'' \<mapsto> ''Acme'', ''status'' \<mapsto> ''Closed'',
        ''timestamp'' \<mapsto> ''2024-05-01T12:00:00.000Z'', ''status'' \<mapsto> ''New''] ''status''
       = Some ''New''
   \<and> [''name'' \<mapsto> ''Acme'', ''status'' \<mapsto> ''Closed''] ''status'' = Some ''Closed''
   \<and> submitLead (with_clock ''1999-12-31T23:59:59.999Z'' (scripted_sdk 0 None)) sample_globals
        (Some Firestore) (Id ''u1'') [''name'' \<mapsto> ''Acme''] fresh_world [] =
       Some (success_result,
             \<lparr>env = 1,
                calls = [AddDoc [''artifacts'', ''default-app-id'', ''users'', ''u1'', ''zorix_leads'']
                          [''name'' \<mapsto> ''Acme'', ''timestamp'' \<mapsto> ''1999-12-31T23:59:59.999Z'',
                           ''status'' \<mapsto> ''New'']]\<rparr>,
             [Invoked])
   \<and> respond (with_clock ''1999-12-31T23:59:59.999Z'' (scripted_sdk 0 None)) =
       respond (scripted_sdk 0 None)
   \<and> submitLead (scripted_sdk 0 None) sample_globals (Some Firestore) (Id ''a/b'')
        [''name'' \<mapsto> ''Acme''] fresh_world [] = Some (failure_result, fresh_world, [])"
  by (simp add: submitLead_def withRetry_default_def withRetry.simps addLead_def remote_def
      scripted_sdk_def with_clock_def sample_globals_def fresh_world_def getLeadsCollectionRef_def
      lead_record_def)

text \<open>
  Claim C8, amended. With a database handle and a non-empty identifier \<open>u\<close> for which
  \<^verbatim>\<open>collection\<close> gives the reference of \<open>artifacts/<appId>/users/<u>/zorix_leads\<close>, if the
  backend accepts the \<^verbatim>\<open>addDoc\<close> request at the first attempt or at one of the five
  retries, after rejecting the earlier ones, then \<open>submitLead\<close> returns the success
  result. The accepted request is the last one sent and the only one accepted. Its
  record holds every submitted field not named \<open>timestamp\<close> or \<open>status\<close> unchanged,
  \<open>status = "New"\<close>, and as \<open>timestamp\<close> the value of \<^verbatim>\<open>new Date().toISOString()\<close> that
  the program reads when it builds the record for that attempt.
\<close>

theorem submitLead_accepted:
  assumes "db' \<noteq> None" and "u \<noteq> []"
    and "getLeadsCollectionRef k (appId g) u = Inr ref"
    and "j < 6" and "\<forall>i<j. isl (attempt (addLead k ref formData) w i)"
    and "attempt (addLead k ref formData) w j = Inr v"
  shows "submitLead k g db' (Id u) formData w log =
           Some (success_result, state_after (addLead k ref formData) w (Suc j),
                 log @ backoff 1000 j @ [Invoked])
         \<and> calls (state_after (addLead k ref formData) w (Suc j)) =
             calls (state_after (addLead k ref formData) w j)
               @ [AddDoc ref (lead_record k formData (env (state_after (addLead k ref formData) w j)))]
         \<and> length (calls (state_after (addLead k ref formData) w j)) = length (calls w) + j
         \<and> invocations (backoff 1000 j @ [Invoked]) = Suc j
         \<and> lead_record k formData e ''status'' = Some ''New''
         \<and> lead_record k formData e ''timestamp'' = Some (toISOString k e)
         \<and> (\<forall>f. f \<noteq> ''timestamp'' \<and> f \<noteq> ''status'' \<longrightarrow> lead_record k formData e f = formData f)
         \<and> success success_result
         \<and> collection k [''artifacts'', appId g, ''users'', u, ''zorix_leads''] = Inr ref"
proof -
  let ?fn = "addLead k ref formData"
  have "submitLead k g db' (Id u) formData w log =
      Some (success_result, state_after ?fn w (Suc j), log @ backoff 1000 j @ [Invoked])"
    using assms by (rule submitLead_success_after)
  moreover have "calls (state_after ?fn w (Suc j)) =
      calls (state_after ?fn w j) @ [AddDoc ref (lead_record k formData (env (state_after ?fn w j)))]"
    by (rule state_after_addLead_last)
  moreover have "length (calls (state_after ?fn w j)) = length (calls w) + j"
    using state_after_addLead_calls [of k ref formData w j] by simp
  moreover have "invocations (backoff 1000 j @ [Invoked]) = Suc j"
    by (rule invocations_backoff)
  moreover have "lead_record k formData e ''status'' = Some ''New''"
    and "lead_record k formData e ''timestamp'' = Some (toISOString k e)"
    and "\<forall>f. f \<noteq> ''timestamp'' \<and> f \<noteq> ''status'' \<longrightarrow> lead_record k formData e f = formData f"
    by (simp_all add: lead_record_def)
  moreover have "success success_result" by (simp add: success_result_def)
  moreover have "collection k [''artifacts'', appId g, ''users'', u, ''zorix_leads''] = Inr ref"
    using assms(3) by (simp add: getLeadsCollectionRef_def)
  ultimately show ?thesis by blast
qed

theorem submitLead_accepted_witness:
  "Some Firestore \<noteq> None \<and> ''u1'' \<noteq> []
   \<and> getLeadsCollectionRef (scripted_sdk 2 None) (appId sample_globals) ''u1'' =
       Inr [''artifacts'', ''default-app-id'', ''users'', ''u1'', ''zorix_leads'']
   \<and> (2::nat) < 6
   \<and> list_all (\<lambda>i. isl (attempt (addLead (scripted_sdk 2 None)
          [''artifacts'', ''default-app-id'', ''users'', ''u1'', ''zorix_leads'']
          [''name'' \<mapsto> ''Acme'', ''inquiry'' \<mapsto> ''Quote Request'']) fresh_world i)) [0..<2]
   \<and> attempt (addLead (scripted_sdk 2 None)
          [''artifacts'', ''default-app-id'', ''users'', ''u1'', ''zorix_leads'']
          [''name'' \<mapsto> ''Acme'', ''inquiry'' \<mapsto> ''Quote Request'']) fresh_world 2 = Inr ()
   \<and> submitLead (scripted_sdk 2 None) sample_globals (Some Firestore) (Id ''u1'')
        [''name'' \<mapsto> ''Acme'', ''inquiry'' \<mapsto> ''Quote Request''] fresh_world [] =
       Some (success_result,
             \<lparr>env = 3,
                calls = replicate 3
                  (AddDoc [''artifacts'', ''default-app-id'', ''users'', ''u1'', ''zorix_leads'']
                     [''name'' \<mapsto> ''Acme'', ''inquiry'' \<mapsto> ''Quote Request'',
                      ''timestamp'' \<mapsto> ''2024-05-01T12:00:00.000Z'', ''status'' \<mapsto> ''New''])\<rparr>,
             [Invoked, Waited 1000, Invoked, Waited 2000, Invoked])"
proof -
  let ?ref = "[''artifacts'', ''default-app-id'', ''users'', ''u1'', ''zorix_leads'']"
  let ?fd = "[''name'' \<mapsto> ''Acme'', ''inquiry'' \<mapsto> ''Quote Request'']"
  have c: "getLeadsCollectionRef (scripted_sdk 2 None) (appId sample_globals) ''u1'' = Inr ?ref"
    by (simp add: getLeadsCollectionRef_def scripted_sdk_def sample_globals_def)
  have h: "\<forall>i<2. isl (attempt (addLead (scripted_sdk 2 None) ?ref ?fd) fresh_world i)"
    by (simp add: eval_nat_numeral All_less_Suc attempt_def addLead_def remote_def scripted_sdk_def
        fresh_world_def)
  have a: "attempt (addLead (scripted_sdk 2 None) ?ref ?fd) fresh_world 2 = Inr ()"
    by (simp add: eval_nat_numeral attempt_def addLead_def remote_def scripted_sdk_def
        fresh_world_def)
  have "submitLead (scripted_sdk 2 None) sample_globals (Some Firestore) (Id ''u1'') ?fd
          fresh_world [] =
        Some (success_result, state_after (addLead (scripted_sdk 2 None) ?ref ?fd) fresh_world (Suc 2),
              [] @ backoff 1000 2 @ [Invoked])"
    using submitLead_accepted [OF _ _ c _ h a, of "Some Firestore" "[]"] by simp
  then show ?thesis using c h a
    by (simp add: eval_nat_numeral addLead_def remote_def scripted_sdk_def fresh_world_def
        lead_record_def)
qed

text \<open>
  Claim C9, as stated, fails for an identifier such as \<open>a/b\<close>: against a backend that
  rejects every request, \<open>submitLead\<close> returns the failure result after no attempt at
  all, since building the collection reference throws inside the \<^verbatim>\<open>try\<close>.
\<close>

theorem submitLead_no_reference_counterexample:
  "submitLead (scripted_sdk 6 None) sample_globals (Some Firestore) (Id ''a/b'')
      [''name'' \<mapsto> ''Acme''] fresh_world [] = Some (failure_result, fresh_world, [])
   \<and> calls fresh_world = []"
  by (simp add: submitLead_def scripted_sdk_def sample_globals_def fresh_world_def
      getLeadsCollectionRef_def)

text \<open>
  Claim C9, amended. With a database handle and a non-empty identifier: if
  \<^verbatim>\<open>collection\<close> gives the reference and the backend rejects each of the six
  \<^verbatim>\<open>addDoc\<close> requests, \<open>submitLead\<close> returns a result (it does not throw), the failure
  result, after exactly six requests, all to the identity's collection, and the five
  waits; if \<^verbatim>\<open>collection\<close> throws, it returns the same failure result at once, with no
  request and no wait. The message is the fixed non-empty sentence of line 153,
  whatever the errors were; the result has no component taken from them.
\<close>

theorem submitLead_exhausted:
  assumes "db' \<noteq> None" and "u \<noteq> []"
  shows "(getLeadsCollectionRef k (appId g) u = Inr ref
            \<and> (\<forall>j<6. isl (attempt (addLead k ref formData) w j)) \<longrightarrow>
          submitLead k g db' (Id u) formData w log =
            Some (failure_result, state_after (addLead k ref formData) w 6,
                  log @ backoff 1000 5 @ [Invoked])
          \<and> length (calls (state_after (addLead k ref formData) w 6)) = length (calls w) + 6
          \<and> length (lead_writes ref (calls (state_after (addLead k ref formData) w 6))) =
              length (lead_writes ref (calls w)) + 6)
         \<and> (getLeadsCollectionRef k (appId g) u = Inl error \<longrightarrow>
              submitLead k g db' (Id u) formData w log = Some (failure_result, w, log))
         \<and> invocations (backoff 1000 5 @ [Invoked]) = 6
         \<and> \<not> success failure_result
         \<and> message failure_result = ''Submission failed. Please check your network connection.''
         \<and> message failure_result \<noteq> []"
proof (intro conjI impI)
  assume a: "getLeadsCollectionRef k (appId g) u = Inr ref
      \<and> (\<forall>j<6. isl (attempt (addLead k ref formData) w j))"
  then show "submitLead k g db' (Id u) formData w log =
      Some (failure_result, state_after (addLead k ref formData) w 6,
            log @ backoff 1000 5 @ [Invoked])"
    using assms by (intro submitLead_failure_after) simp_all
  show "length (calls (state_after (addLead k ref formData) w 6)) = length (calls w) + 6"
    using state_after_addLead_calls [of k ref formData w 6] by simp
  show "length (lead_writes ref (calls (state_after (addLead k ref formData) w 6))) =
      length (lead_writes ref (calls w)) + 6"
    using state_after_addLead_calls [of k ref formData w 6] by simp
next
  assume "getLeadsCollectionRef k (appId g) u = Inl error"
  then show "submitLead k g db' (Id u) formData w log = Some (failure_result, w, log)"
    using assms by (intro submitLead_no_reference)
next
  show "invocations (backoff 1000 5 @ [Invoked]) = 6" by (simp add: invocations_backoff)
next
  show "\<not> success failure_result" by (simp add: failure_result_def)
next
  show "message failure_result = ''Submission failed. Please check your network connection.''"
    by (simp add: failure_result_def)
next
  show "message failure_result \<noteq> []" by (simp add: failure_result_def)
qed

theorem submitLead_exhausted_witness:
  "Some Firestore \<noteq> None \<and> ''u1'' \<noteq> [] \<and> ''a/b'' \<noteq> []
   \<and> getLeadsCollectionRef (scripted_sdk 6 None) (appId sample_globals) ''u1'' =
       Inr [''artifacts'', ''default-app-id'', ''users'', ''u1'', ''zorix_leads'']
   \<and> list_all (\<lambda>j. isl (attempt (addLead (scripted_sdk 6 None)
          [''artifacts'', ''default-app-id'', ''users'', ''u1'', ''zorix_leads'']
          [''name'' \<mapsto> ''Acme'']) fresh_world j)) [0..<6]
   \<and> attempt (addLead (scripted_sdk 6 None)
         [''artifacts'', ''default-app-id'', ''users'', ''u1'', ''zorix_leads'']
         [''name'' \<mapsto> ''Acme'']) fresh_world 5 = Inl ''unavailable''
   \<and> message failure_result \<noteq> ''unavailable''
   \<and> submitLead (scripted_sdk 6 None) sample_globals (Some Firestore) (Id ''u1'')
        [''name'' \<mapsto> ''Acme''] fresh_world [] =
       Some (failure_result,
             \<lparr>env = 6,
                calls = replicate 6
                  (AddDoc [''artifacts'', ''default-app-id'', ''users'', ''u1'', ''zorix_leads'']
                     [''name'' \<mapsto> ''Acme'', ''timestamp'' \<mapsto> ''2024-05-01T12:00:00.000Z'',
                      ''status'' \<mapsto> ''New''])\<rparr>,
             [Invoked, Waited 1000, Invoked, Waited 2000, Invoked, Waited 4000, Invoked,
              Waited 8000, Invoked, Waited 16000, Invoked])
   \<and> getLeadsCollectionRef (scripted_sdk 6 None) (appId sample_globals) ''a/b'' =
       Inl ''invalid-argument''
   \<and> submitLead (scripted_sdk 6 None) sample_globals (Some Firestore) (Id ''a/b'')
        [''name'' \<mapsto> ''Acme''] fresh_world [] = Some (failure_result, fresh_world, [])"
proof -
  let ?ref = "[''artifacts'', ''default-app-id'', ''users'', ''u1'', ''zorix_leads'']"
  let ?fd = "[''name'' \<mapsto> ''Acme'']"
  have c: "getLeadsCollectionRef (scripted_sdk 6 None) (appId sample_globals) ''u1'' = Inr ?ref"
    by (simp add: getLeadsCollectionRef_def scripted_sdk_def sample_globals_def)
  have d: "getLeadsCollectionRef (scripted_sdk 6 None) (appId sample_globals) ''a/b'' =
      Inl ''invalid-argument''"
    by (simp add: getLeadsCollectionRef_def scripted_sdk_def sample_globals_def)
  have h: "\<forall>j<6. isl (attempt (addLead (scripted_sdk 6 None) ?ref ?fd) fresh_world j)"
    by (simp add: eval_nat_numeral All_less_Suc attempt_def addLead_def remote_def
        scripted_sdk_def fresh_world_def)
  have a: "attempt (addLead (scripted_sdk 6 None) ?ref ?fd) fresh_world 5 = Inl ''unavailable''"
    by (simp add: eval_nat_numeral attempt_def addLead_def remote_def scripted_sdk_def
        fresh_world_def)
  have r: "submitLead (scripted_sdk 6 None) sample_globals (Some Firestore) (Id ''u1'') ?fd
             fresh_world [] =
      Some (failure_result, state_after (addLead (scripted_sdk 6 None) ?ref ?fd) fresh_world 6,
            [] @ backoff 1000 5 @ [Invoked])"
    using c h submitLead_exhausted [of "Some Firestore" "''u1''" "scripted_sdk 6 None"
        sample_globals ?ref ?fd fresh_world "[]" "''none''"]
    by simp
  have n: "submitLead (scripted_sdk 6 None) sample_globals (Some Firestore) (Id ''a/b'') ?fd
             fresh_world [] = Some (failure_result, fresh_world, [])"
    using d submitLead_exhausted [of "Some Firestore" "''a/b''" "scripted_sdk 6 None"
        sample_globals ?ref ?fd fresh_world "[]" "''invalid-argument''"]
    by simp
  show ?thesis using c d h a n r
    by (simp add: eval_nat_numeral addLead_def remote_def scripted_sdk_def fresh_world_def
        lead_record_def failure_result_def)
qed

end
